theory Spec2Isabelle
  imports Main "HOL-Library.Sublist"
begin

section \<open>The Bosque notebook kernel: compiler/runtime bridge and session controller\<close>

text \<open>
  The embedding follows \<^verbatim>\<open>bosque_kernel/wrapper.py\<close> (class \<^verbatim>\<open>BosqueWrapper\<close>),
  \<^verbatim>\<open>bosque_kernel/kernel.py\<close> (class \<^verbatim>\<open>BosqueKernel\<close>) and
  \<^verbatim>\<open>bosque_kernel/lexer.py\<close> (class \<^verbatim>\<open>BosqueLexer\<close>).

  The Python code talks to the operating system (files, the working directory, child
  processes) and raises exceptions. Both are explicit here: every operation is a function
  from a \<open>world\<close> to a result and a new world, and a result is \<open>Inl\<close> of the exception
  raised or \<open>Inr\<close> of the value returned.
\<close>

subsection \<open>Exceptions\<close>

text \<open>
  An exception is its class and its message (\<^verbatim>\<open>str(e)\<close>). \<^verbatim>\<open>BosqueExecutionError\<close> is
  the one exception class that \<^verbatim>\<open>wrapper.py\<close> declares; the others are Python's own.
\<close>

datatype exn_class =
    BosqueExecutionError
  | RuntimeError
  | NameError
  | OSError
  | FileNotFoundError
  | FileExistsError
  | IsADirectoryError
  | NotADirectoryError
  | NotImplementedError
  | ImportError

datatype exn = Exn exn_class string

fun exn_kind :: "exn \<Rightarrow> exn_class" where
  "exn_kind (Exn c m) = c"

fun str_exn :: "exn \<Rightarrow> string" where
  "str_exn (Exn c m) = m"

text \<open>\<^verbatim>\<open>type(e).__name__\<close>\<close>

fun type_name :: "exn_class \<Rightarrow> string" where
  "type_name BosqueExecutionError = ''BosqueExecutionError''"
| "type_name RuntimeError = ''RuntimeError''"
| "type_name NameError = ''NameError''"
| "type_name OSError = ''OSError''"
| "type_name FileNotFoundError = ''FileNotFoundError''"
| "type_name FileExistsError = ''FileExistsError''"
| "type_name IsADirectoryError = ''IsADirectoryError''"
| "type_name NotADirectoryError = ''NotADirectoryError''"
| "type_name NotImplementedError = ''NotImplementedError''"
| "type_name ImportError = ''ImportError''"

text \<open>What \<^verbatim>\<open>except OSError\<close> catches: the class and its subclasses.\<close>

fun is_OSError :: "exn_class \<Rightarrow> bool" where
  "is_OSError OSError = True"
| "is_OSError FileNotFoundError = True"
| "is_OSError FileExistsError = True"
| "is_OSError IsADirectoryError = True"
| "is_OSError NotADirectoryError = True"
| "is_OSError _ = False"

text \<open>The class of the exception a result carries, if it carries one.\<close>

fun raised_kind :: "exn + 'a \<Rightarrow> exn_class option" where
  "raised_kind (Inl e) = Some (exn_kind e)"
| "raised_kind (Inr v) = None"

subsection \<open>Paths, the file system and child processes\<close>

text \<open>
  A path is the list of its components, absolute or relative to the working directory.
  Two spellings of one path are one value; \<^verbatim>\<open>..\<close> and symbolic links are not modelled.
\<close>

datatype path = Abs "string list" | Rel "string list"

text \<open>\<^verbatim>\<open>os.path.join(a, b)\<close>: an absolute \<open>b\<close> replaces \<open>a\<close>.\<close>

fun os_path_join :: "path \<Rightarrow> path \<Rightarrow> path" where
  "os_path_join a (Abs cs) = Abs cs"
| "os_path_join (Abs ds) (Rel cs) = Abs (ds @ cs)"
| "os_path_join (Rel ds) (Rel cs) = Rel (ds @ cs)"

fun join_with :: "string \<Rightarrow> string list \<Rightarrow> string" where
  "join_with sep [] = []"
| "join_with sep [c] = c"
| "join_with sep (c # d # cs) = c @ sep @ join_with sep (d # cs)"

text \<open>The text of a path, as an f-string prints it.\<close>

fun str_path :: "path \<Rightarrow> string" where
  "str_path (Abs cs) = ''/'' @ join_with ''/'' cs"
| "str_path (Rel cs) = join_with ''/'' cs"

datatype node = File string | Dir

type_synonym filesystem = "(string list \<times> node) list"

text \<open>
  The result of a finished child process (\<^verbatim>\<open>subprocess.CompletedProcess\<close> with captured,
  decoded output).
\<close>

record completed =
  returncode :: int
  stdout :: string
  stderr :: string

text \<open>
  An executable takes its argument vector, its working directory and the file system, and
  leaves a result and a file system. Child processes are taken to finish.
\<close>

type_synonym program = "string list \<Rightarrow> string list \<Rightarrow> filesystem \<Rightarrow> completed \<times> filesystem"

text \<open>The messages the kernel sends to the notebook front end on its IOPub socket.\<close>

datatype message =
    Status string
  | Stream string string
  | ErrorContent string string "string list"

text \<open>
  The world: the files (an association list from absolute component lists to nodes, in the
  order in which a directory scan lists them), the working directory, what a command name
  resolves to on the search path, the directory for temporary files with the candidate
  names \<^verbatim>\<open>mkdtemp\<close> draws, and the messages sent so far.
\<close>

record world =
  fs :: filesystem
  cwd :: "string list"
  programs :: "string \<Rightarrow> program option"
  tmpdir :: "string list"
  tmpnames :: "string list"
  iopub :: "message list"

type_synonym 'a io = "world \<Rightarrow> (exn + 'a) \<times> world"

definition ret :: "'a \<Rightarrow> 'a io" where
  "ret v w = (Inr v, w)"

definition raise :: "exn \<Rightarrow> 'a io" where
  "raise e w = (Inl e, w)"

text \<open>Sequencing: an exception in the first statement skips the rest.\<close>

definition bind :: "'a io \<Rightarrow> ('a \<Rightarrow> 'b io) \<Rightarrow> 'b io" where
  "bind m f w = (case m w of (Inl e, w') \<Rightarrow> (Inl e, w') | (Inr v, w') \<Rightarrow> f v w')"

text \<open>\<^verbatim>\<open>try: m  except Exception as e: h(e)\<close>\<close>

definition try_except :: "'a io \<Rightarrow> (exn \<Rightarrow> 'a io) \<Rightarrow> 'a io" where
  "try_except m h w = (case m w of (Inl e, w') \<Rightarrow> h e w' | (Inr v, w') \<Rightarrow> (Inr v, w'))"

fun absolute :: "world \<Rightarrow> path \<Rightarrow> string list" where
  "absolute w (Abs cs) = cs"
| "absolute w (Rel cs) = cwd w @ cs"

text \<open>
  Resolving a component list: the root directory always exists, and an entry is reached
  only through directories.
\<close>

definition lookup :: "filesystem \<Rightarrow> string list \<Rightarrow> node option" where
  "lookup f cs =
     (if cs = [] then Some Dir
      else if list_all (\<lambda>p. p = [] \<or> map_of f p = Some Dir) (butlast (prefixes cs))
      then map_of f cs else None)"

fun is_file_node :: "node option \<Rightarrow> bool" where
  "is_file_node (Some (File c)) = True"
| "is_file_node _ = False"

definition os_path_isfile :: "world \<Rightarrow> path \<Rightarrow> bool" where
  "os_path_isfile w p = is_file_node (lookup (fs w) (absolute w p))"

definition os_path_isdir :: "world \<Rightarrow> path \<Rightarrow> bool" where
  "os_path_isdir w p = (lookup (fs w) (absolute w p) = Some Dir)"

fun fs_put :: "string list \<Rightarrow> node \<Rightarrow> filesystem \<Rightarrow> filesystem" where
  "fs_put k v [] = [(k, v)]"
| "fs_put k v ((k', v') # f) = (if k = k' then (k, v) # f else (k', v') # fs_put k v f)"

definition fs_del :: "string list \<Rightarrow> filesystem \<Rightarrow> filesystem" where
  "fs_del k f = filter (\<lambda>(k', v). k' \<noteq> k) f"

text \<open>The message of an \<^verbatim>\<open>OSError\<close> about a path.\<close>

definition os_msg :: "string \<Rightarrow> path \<Rightarrow> string" where
  "os_msg what p = what @ '': '' @ [CHR 0x27] @ str_path p @ [CHR 0x27]"

text \<open>
  \<^verbatim>\<open>with open(p, 'w') as f: f.write(text)\<close>: the directory of \<open>p\<close> must exist, and \<open>p\<close>
  must not be a directory; the file is created or overwritten.
\<close>

definition open_write :: "path \<Rightarrow> string \<Rightarrow> unit io" where
  "open_write p text w =
     (let k = absolute w p in
      if k = [] \<or> lookup (fs w) k = Some Dir then
        raise (Exn IsADirectoryError (os_msg ''[Errno 21] Is a directory'' p)) w
      else (case lookup (fs w) (butlast k) of
          None \<Rightarrow> raise (Exn FileNotFoundError (os_msg ''[Errno 2] No such file or directory'' p)) w
        | Some (File c) \<Rightarrow> raise (Exn NotADirectoryError (os_msg ''[Errno 20] Not a directory'' p)) w
        | Some Dir \<Rightarrow> ret () (w\<lparr>fs := fs_put k (File text) (fs w)\<rparr>)))"

text \<open>
  \<^verbatim>\<open>os.makedirs(p, exist_ok=True)\<close> on the component list \<open>pre @ cs\<close>, where \<open>pre\<close> is
  known to be a directory: missing directories are created from the outside in, a file in the
  way is an error.
\<close>

fun makedirs_from :: "path \<Rightarrow> string list \<Rightarrow> string list \<Rightarrow> filesystem \<Rightarrow> exn + filesystem" where
  "makedirs_from p pre [] f = Inr f"
| "makedirs_from p pre (c # cs) f =
     (case lookup f (pre @ [c]) of
        Some Dir \<Rightarrow> makedirs_from p (pre @ [c]) cs f
      | Some (File t) \<Rightarrow>
          Inl (if cs = [] then Exn FileExistsError (os_msg ''[Errno 17] File exists'' p)
               else Exn NotADirectoryError (os_msg ''[Errno 20] Not a directory'' p))
      | None \<Rightarrow> makedirs_from p (pre @ [c]) cs (fs_put (pre @ [c]) Dir f))"

definition os_makedirs :: "path \<Rightarrow> unit io" where
  "os_makedirs p w =
     (case makedirs_from p [] (absolute w p) (fs w) of
        Inl e \<Rightarrow> raise e w
      | Inr f \<Rightarrow> ret () (w\<lparr>fs := f\<rparr>))"

text \<open>\<^verbatim>\<open>os.remove(p)\<close>: only a regular file can be removed.\<close>

definition os_remove :: "path \<Rightarrow> unit io" where
  "os_remove p w =
     (let k = absolute w p in
      case lookup (fs w) k of
        None \<Rightarrow> raise (Exn FileNotFoundError (os_msg ''[Errno 2] No such file or directory'' p)) w
      | Some Dir \<Rightarrow> raise (Exn IsADirectoryError (os_msg ''[Errno 21] Is a directory'' p)) w
      | Some (File c) \<Rightarrow> ret () (w\<lparr>fs := fs_del k (fs w)\<rparr>))"

definition os_getcwd :: "path io" where
  "os_getcwd w = ret (Abs (cwd w)) w"

definition os_chdir :: "path \<Rightarrow> unit io" where
  "os_chdir p w =
     (case lookup (fs w) (absolute w p) of
        None \<Rightarrow> raise (Exn FileNotFoundError (os_msg ''[Errno 2] No such file or directory'' p)) w
      | Some (File c) \<Rightarrow> raise (Exn NotADirectoryError (os_msg ''[Errno 20] Not a directory'' p)) w
      | Some Dir \<Rightarrow> ret () (w\<lparr>cwd := absolute w p\<rparr>))"

text \<open>
  \<^verbatim>\<open>subprocess.run([cmd, arg], capture_output=True, text=True, cwd=d)\<close>: the working
  directory must exist and the command must be found; then the program runs to its end.
\<close>

definition subprocess_run :: "string \<Rightarrow> path \<Rightarrow> path \<Rightarrow> completed io" where
  "subprocess_run cmd arg d w =
     (if \<not> os_path_isdir w d then
        raise (Exn FileNotFoundError (os_msg ''[Errno 2] No such file or directory'' d)) w
      else (case programs w cmd of
          None \<Rightarrow> raise (Exn FileNotFoundError
                    (''[Errno 2] No such file or directory: '' @ [CHR 0x27] @ cmd @ [CHR 0x27])) w
        | Some prog \<Rightarrow>
            (case prog [cmd, str_path arg] (absolute w d) (fs w) of
               (cp, f) \<Rightarrow> ret cp (w\<lparr>fs := f\<rparr>))))"

text \<open>\<^verbatim>\<open>shutil.which(cmd)\<close>, read as a truth value.\<close>

definition shutil_which :: "world \<Rightarrow> string \<Rightarrow> bool" where
  "shutil_which w cmd = (programs w cmd \<noteq> None)"

text \<open>
  The names of the entries of a directory, in scan order; nothing for what is not a
  directory.
\<close>

definition scandir :: "world \<Rightarrow> path \<Rightarrow> string list" where
  "scandir w d =
     (if os_path_isdir w d then
        map (\<lambda>(k, v). last k) (filter (\<lambda>(k, v). k \<noteq> [] \<and> butlast k = absolute w d) (fs w))
      else [])"

text \<open>\<^verbatim>\<open>list(Path(d).glob('*' + ext))\<close>: the entries whose names end with \<open>ext\<close>.\<close>

definition path_glob_ext :: "world \<Rightarrow> path \<Rightarrow> string \<Rightarrow> path list" where
  "path_glob_ext w d ext =
     map (\<lambda>n. os_path_join d (Rel [n])) (filter (suffix ext) (scandir w d))"

text \<open>
  \<^verbatim>\<open>tempfile.mkdtemp(prefix=pre)\<close>: the first candidate name that is free becomes a new
  directory under the directory for temporary files.
\<close>

fun mkdtemp_try :: "string \<Rightarrow> string list \<Rightarrow> string list \<Rightarrow> filesystem \<Rightarrow> exn + (string list \<times> filesystem)" where
  "mkdtemp_try pre d [] f =
     Inl (Exn FileExistsError ''[Errno 17] No usable temporary directory name found'')"
| "mkdtemp_try pre d (n # ns) f =
     (if lookup f d \<noteq> Some Dir then
        Inl (Exn FileNotFoundError (os_msg ''[Errno 2] No such file or directory'' (Abs (d @ [pre @ n]))))
      else if lookup f (d @ [pre @ n]) \<noteq> None then mkdtemp_try pre d ns f
      else Inr (d @ [pre @ n], fs_put (d @ [pre @ n]) Dir f))"

definition tempfile_mkdtemp :: "string \<Rightarrow> path io" where
  "tempfile_mkdtemp pre w =
     (case mkdtemp_try pre (tmpdir w) (tmpnames w) (fs w) of
        Inl e \<Rightarrow> raise e w
      | Inr (d, f) \<Rightarrow> ret (Abs d) (w\<lparr>fs := f\<rparr>))"

subsection \<open>Strings\<close>

text \<open>
  Characters are code points below 256. \<^verbatim>\<open>str.isspace\<close> (and the regular expression
  \<^verbatim>\<open>\s\<close>) holds of these.
\<close>

definition isspace :: "char \<Rightarrow> bool" where
  "isspace c = (of_char c \<in> {9::nat, 10, 11, 12, 13, 28, 29, 30, 31, 32, 133, 160})"

text \<open>\<^verbatim>\<open>s.strip()\<close>\<close>

definition strip :: "string \<Rightarrow> string" where
  "strip s = rev (dropWhile isspace (rev (dropWhile isspace s)))"

text \<open>\<^verbatim>\<open>s or d\<close> on strings: the empty string is false.\<close>

definition str_or :: "string \<Rightarrow> string \<Rightarrow> string" where
  "str_or s d = (if s = [] then d else s)"

subsection \<open>\<^verbatim>\<open>wrapper.py\<close>: the bridge\<close>

text \<open>The fields of a \<^verbatim>\<open>BosqueWrapper\<close>; the file name is one path component.\<close>

record BosqueWrapper =
  bosque_command :: string
  node_command :: string
  main_js_filename :: string

text \<open>\<^verbatim>\<open>BosqueWrapper()\<close> with the default arguments of \<^verbatim>\<open>__init__\<close>.\<close>

definition BosqueWrapper_init :: BosqueWrapper where
  "BosqueWrapper_init =
     \<lparr>bosque_command = ''bosque'', node_command = ''node'', main_js_filename = ''Main.mjs''\<rparr>"

definition compile_bosque :: "BosqueWrapper \<Rightarrow> string \<Rightarrow> path \<Rightarrow> path io" where
  "compile_bosque self bosque_code work_dir =
     (let source_file_path = os_path_join work_dir (Rel [''source.bsq'']) in
      bind (open_write source_file_path bosque_code) (\<lambda>_.
      let output_dir = os_path_join work_dir (Rel [''jsout'']) in
      bind (os_makedirs output_dir) (\<lambda>_.
      bind (subprocess_run (bosque_command self) source_file_path work_dir) (\<lambda>compile_proc.
      bind (os_remove source_file_path) (\<lambda>_.
      if returncode compile_proc \<noteq> 0 then
        (let error_msg = str_or (strip (stderr compile_proc)) ''Unknown compilation error.'' in
         raise (Exn BosqueExecutionError (''Compilation failed: '' @ error_msg)))
      else (\<lambda>w.
        if \<not> os_path_isdir w output_dir then
          raise (Exn BosqueExecutionError
            (''Compilation succeeded but output directory '' @ [CHR 0x27] @ str_path output_dir
               @ [CHR 0x27] @ '' was not found.'')) w
        else ret output_dir w))))))"

definition find_main_js :: "BosqueWrapper \<Rightarrow> path \<Rightarrow> path io" where
  "find_main_js self output_dir w =
     (let main_js_path = os_path_join output_dir (Rel [main_js_filename self]) in
      if \<not> os_path_isfile w main_js_path then
        (let js_files = path_glob_ext w output_dir ''.mjs'' @ path_glob_ext w output_dir ''.js'' in
         if js_files \<noteq> [] then ret (hd js_files) w
         else raise (Exn BosqueExecutionError
            (''Main JavaScript file '' @ [CHR 0x27] @ main_js_filename self @ [CHR 0x27]
               @ '' not found in '' @ [CHR 0x27] @ str_path output_dir @ [CHR 0x27] @ ''.'')) w)
      else ret main_js_path w)"

definition execute_js :: "BosqueWrapper \<Rightarrow> path \<Rightarrow> path \<Rightarrow> string io" where
  "execute_js self js_path work_dir =
     bind (subprocess_run (node_command self) js_path work_dir) (\<lambda>execute_proc.
     if returncode execute_proc \<noteq> 0 then
       (let error_msg = str_or (strip (stderr execute_proc)) ''Unknown execution error.'' in
        raise (Exn BosqueExecutionError (''Execution failed: '' @ error_msg)))
     else ret (stdout execute_proc))"

definition compile_and_execute :: "BosqueWrapper \<Rightarrow> string \<Rightarrow> path \<Rightarrow> string io" where
  "compile_and_execute self bosque_code work_dir =
     bind (compile_bosque self bosque_code work_dir) (\<lambda>output_dir.
     bind (find_main_js self output_dir) (\<lambda>main_js.
     bind (execute_js self main_js work_dir) (\<lambda>output.
     ret output)))"

text \<open>
  Two prefixes of the bridge, to speak about what a child process returned: the statements
  of \<^verbatim>\<open>compile_bosque\<close> up to the return of the compiler process, and the statements of
  \<^verbatim>\<open>compile_and_execute\<close> up to the return of the runtime process.
\<close>

definition compiler_run :: "BosqueWrapper \<Rightarrow> string \<Rightarrow> path \<Rightarrow> completed io" where
  "compiler_run self bosque_code work_dir =
     (let source_file_path = os_path_join work_dir (Rel [''source.bsq'']) in
      bind (open_write source_file_path bosque_code) (\<lambda>_.
      let output_dir = os_path_join work_dir (Rel [''jsout'']) in
      bind (os_makedirs output_dir) (\<lambda>_.
      subprocess_run (bosque_command self) source_file_path work_dir)))"

definition runtime_run :: "BosqueWrapper \<Rightarrow> string \<Rightarrow> path \<Rightarrow> completed io" where
  "runtime_run self bosque_code work_dir =
     bind (compile_bosque self bosque_code work_dir) (\<lambda>output_dir.
     bind (find_main_js self output_dir) (\<lambda>main_js.
     subprocess_run (node_command self) main_js work_dir))"

text \<open>A file name that \<^verbatim>\<open>*.mjs\<close> or \<^verbatim>\<open>*.js\<close> matches.\<close>

definition js_module_name :: "string \<Rightarrow> bool" where
  "js_module_name n = (suffix ''.mjs'' n \<or> suffix ''.js'' n)"

subsection \<open>\<^verbatim>\<open>kernel.py\<close>: the session controller\<close>

text \<open>
  The fields of a constructed \<^verbatim>\<open>BosqueKernel\<close> that the methods below read.
  \<^verbatim>\<open>execution_count\<close> belongs to the base class \<^verbatim>\<open>Kernel\<close>. Logging calls have no
  effect on the results and are left out.
\<close>

record BosqueKernel =
  temp_dir :: path
  bosque :: BosqueWrapper
  execution_count :: nat

text \<open>Evaluating a name that is bound nowhere raises \<^verbatim>\<open>NameError\<close>.\<close>

definition unbound_name :: "string \<Rightarrow> exn" where
  "unbound_name n = Exn NameError (''name '' @ [CHR 0x27] @ n @ [CHR 0x27] @ '' is not defined'')"

text \<open>
  \<^verbatim>\<open>BosqueKernel.__init__\<close>. The outer handler binds the exception to \<^verbatim>\<open>e\<close> and then
  executes \<^verbatim>\<open>raise es\<close>; no name \<^verbatim>\<open>es\<close> is bound in the method or the module.
\<close>

definition BosqueKernel_init :: "BosqueKernel io" where
  "BosqueKernel_init =
     try_except
       (let bosque = BosqueWrapper_init in
        bind (try_except (tempfile_mkdtemp ''bosque_kernel_'')
                (\<lambda>e. raise (Exn RuntimeError ''Cannot create temporary directory.''))) (\<lambda>temp_dir.
        (\<lambda>w.
          if \<not> shutil_which w ''bosque'' then
            raise (Exn RuntimeError ([CHR 0x27] @ ''bosque'' @ [CHR 0x27] @ '' executable not found in PATH.'')) w
          else if \<not> shutil_which w ''node'' then
            raise (Exn RuntimeError ([CHR 0x27] @ ''node'' @ [CHR 0x27] @ '' executable not found in PATH.'')) w
          else ret \<lparr>temp_dir = temp_dir, bosque = bosque, execution_count = 0\<rparr> w)))
       (\<lambda>e. raise (unbound_name ''es''))"

definition send_response :: "message \<Rightarrow> unit io" where
  "send_response m w = ret () (w\<lparr>iopub := iopub w @ [m]\<rparr>)"

text \<open>\<^verbatim>\<open>if not silent: self.send_response(...)\<close>\<close>

definition unless_silent :: "bool \<Rightarrow> unit io \<Rightarrow> unit io" where
  "unless_silent silent m = (if \<not> silent then m else ret ())"

definition send_error :: "exn \<Rightarrow> unit io" where
  "send_error exception =
     (let ename = type_name (exn_kind exception); evalue = str_exn exception; traceback = [] in
      send_response (ErrorContent ename evalue traceback))"

text \<open>The method \<^verbatim>\<open>_compile_and_execute\<close>: every exception of the bridge is wrapped.\<close>

definition kernel_compile_and_execute :: "BosqueKernel \<Rightarrow> string \<Rightarrow> string io" where
  "kernel_compile_and_execute self code =
     try_except (compile_and_execute (bosque self) code (temp_dir self))
       (\<lambda>e. raise (Exn BosqueExecutionError (''Execution failed: '' @ str_exn e)))"

text \<open>
  The dictionary \<^verbatim>\<open>do_execute\<close> returns: \<^verbatim>\<open>status\<close> and \<^verbatim>\<open>execution_count\<close> always,
  \<^verbatim>\<open>ename\<close> and \<^verbatim>\<open>evalue\<close> in an error reply (the lists and dictionaries that are always
  empty are left out).
\<close>

record reply =
  status :: string
  reply_execution_count :: nat
  ename :: "string option"
  evalue :: "string option"

text \<open>
  \<^verbatim>\<open>do_execute\<close>. \<^verbatim>\<open>os.getcwd()\<close> is the first statement of the \<^verbatim>\<open>try\<close> block and is
  taken not to fail, so \<^verbatim>\<open>original_cwd\<close> is bound in both handlers. An exception raised
  inside a handler leaves the method.
\<close>

definition do_execute :: "BosqueKernel \<Rightarrow> string \<Rightarrow> bool \<Rightarrow> reply io" where
  "do_execute self code silent =
     bind (unless_silent silent (send_response (Status ''busy''))) (\<lambda>_.
     bind os_getcwd (\<lambda>original_cwd.
     try_except
       (bind (try_except (os_chdir (temp_dir self))
                (\<lambda>e. if is_OSError (exn_kind e)
                     then raise (Exn RuntimeError ''Failed to change working directory.'')
                     else raise e)) (\<lambda>_.
        bind (kernel_compile_and_execute self code) (\<lambda>output.
        bind (unless_silent silent (send_response (Stream ''stdout'' output))) (\<lambda>_.
        bind (os_chdir original_cwd) (\<lambda>_.
        bind (unless_silent silent (send_response (Status ''idle''))) (\<lambda>_.
        ret \<lparr>status = ''ok'', reply_execution_count = execution_count self,
             ename = None, evalue = None\<rparr>))))))
       (\<lambda>e.
          if exn_kind e = BosqueExecutionError then
            bind (unless_silent silent (send_error e)) (\<lambda>_.
            bind (os_chdir original_cwd) (\<lambda>_.
            ret \<lparr>status = ''error'', reply_execution_count = execution_count self,
                 ename = Some ''BosqueExecutionError'', evalue = Some (str_exn e)\<rparr>))
          else
            bind (unless_silent silent (send_error e)) (\<lambda>_.
            bind (os_chdir original_cwd) (\<lambda>_.
            ret \<lparr>status = ''error'', reply_execution_count = execution_count self,
                 ename = Some (type_name (exn_kind e)), evalue = Some (str_exn e)\<rparr>)))))"

text \<open>
  The statements of \<^verbatim>\<open>do_execute\<close> up to the return of the bridge, with the outcome of
  the bridge (its exception or its output) as the value.
\<close>

definition bridge_outcome :: "BosqueKernel \<Rightarrow> string \<Rightarrow> bool \<Rightarrow> (exn + string) io" where
  "bridge_outcome self code silent =
     bind (unless_silent silent (send_response (Status ''busy''))) (\<lambda>_.
     bind os_getcwd (\<lambda>original_cwd.
     bind (os_chdir (temp_dir self)) (\<lambda>_.
     (\<lambda>w. case compile_and_execute (bosque self) code (temp_dir self) w of
            (r, w') \<Rightarrow> (Inr r, w')))))"

subsection \<open>Example worlds\<close>

text \<open>
  A compiler that rejects its input, a compiler that writes one module into \<^verbatim>\<open>jsout\<close>,
  a runtime that prints, and a runtime that fails.
\<close>

definition bosque_rejects :: program where
  "bosque_rejects argv d f =
     (\<lparr>returncode = 1, stdout = [], stderr = ''parse error at line 3''\<rparr>, f)"

definition bosque_emits :: "string \<Rightarrow> program" where
  "bosque_emits name argv d f =
     (\<lparr>returncode = 0, stdout = [], stderr = []\<rparr>,
      fs_put (d @ [''jsout'', name]) (File ''export {};'') f)"

definition node_prints :: program where
  "node_prints argv d f = (\<lparr>returncode = 0, stdout = ''42'', stderr = []\<rparr>, f)"

definition node_crashes :: program where
  "node_crashes argv d f = (\<lparr>returncode = 1, stdout = [], stderr = ''boom''\<rparr>, f)"

text \<open>A compiler that rejects its input and also removes a directory.\<close>

definition bosque_rejects_and_removes :: "string list \<Rightarrow> program" where
  "bosque_rejects_and_removes dir argv d f =
     (\<lparr>returncode = 1, stdout = [], stderr = ''parse error at line 3''\<rparr>, fs_del dir f)"

definition example_world :: "program option \<Rightarrow> program option \<Rightarrow> world" where
  "example_world b n =
     \<lparr>fs = [([''home''], Dir), ([''tmp''], Dir), ([''tmp'', ''k''], Dir)],
      cwd = [''home''],
      programs = (\<lambda>c. if c = ''bosque'' then b else if c = ''node'' then n else None),
      tmpdir = [''tmp''],
      tmpnames = [''k'', ''q''],
      iopub = []\<rparr>"

definition example_kernel :: BosqueKernel where
  "example_kernel =
     \<lparr>temp_dir = Abs [''tmp'', ''k''], bosque = BosqueWrapper_init, execution_count = 1\<rparr>"

text \<open>A world after a successful compilation that left the given modules in \<^verbatim>\<open>jsout\<close>.\<close>

definition modules_world :: "string list \<Rightarrow> world" where
  "modules_world names =
     \<lparr>fs = [([''home''], Dir), ([''tmp''], Dir), ([''tmp'', ''k''], Dir), ([''tmp'', ''k'', ''jsout''], Dir)]
            @ map (\<lambda>n. ([''tmp'', ''k'', ''jsout'', n], File ''export {};'')) names,
      cwd = [''home''],
      programs = (\<lambda>c. None),
      tmpdir = [''tmp''],
      tmpnames = [],
      iopub = []\<rparr>"

section \<open>\<^verbatim>\<open>lexer.py\<close>: the tokenizer\<close>

text \<open>
  \<^verbatim>\<open>lexer.py\<close> imports names from Pygments and then defines \<^verbatim>\<open>BosqueLexer\<close>, a table of
  rules for the scanning loop of Pygments' \<^verbatim>\<open>RegexLexer\<close>. The imports and the table are the
  repository's; what Pygments defines, the loop and Python's regular expressions are the
  library's and are modelled here as far as \<^verbatim>\<open>lexer.py\<close> uses them. What
  \<^verbatim>\<open>Lexer.get_tokens\<close> does to the text before the loop (it normalises line ends and appends
  a final newline) is not part of the model.
\<close>

subsection \<open>Loading the module\<close>

text \<open>
  The first two statements of \<^verbatim>\<open>lexer.py\<close> are
  \<^verbatim>\<open>from pygments.lexer import RegexLexer, bygroups\<close> and
  \<^verbatim>\<open>from pygments.token import Text, Comment, Keyword, Name, Operator, Punctuation, String, Number, Constant\<close>.
  A statement \<^verbatim>\<open>from m import n\<close> raises \<^verbatim>\<open>ImportError\<close> when the module \<open>m\<close> does not
  define \<open>n\<close>. The names that the two modules of Pygments define are a parameter.
\<close>

record pygments =
  lexer_names :: "string list"
  token_names :: "string list"

text \<open>
  The names of the released Pygments (2.17): \<^verbatim>\<open>pygments.token\<close> defines
  \<^verbatim>\<open>Keyword.Constant\<close> and \<^verbatim>\<open>Name.Constant\<close> as attributes, but no name \<^verbatim>\<open>Constant\<close>.
\<close>

definition pygments_release :: pygments where
  "pygments_release =
     \<lparr>lexer_names =
        [''Lexer'', ''RegexLexer'', ''ExtendedRegexLexer'', ''DelegatingLexer'', ''LexerContext'',
         ''include'', ''inherit'', ''bygroups'', ''using'', ''this'', ''default'', ''words'',
         ''line_re''],
      token_names =
        [''Token'', ''Text'', ''Whitespace'', ''Escape'', ''Error'', ''Other'', ''Keyword'',
         ''Name'', ''Literal'', ''String'', ''Number'', ''Punctuation'', ''Operator'',
         ''Comment'', ''Generic'', ''is_token_subtype'', ''string_to_tokentype'',
         ''STANDARD_TYPES'']\<rparr>"

text \<open>A Pygments that also defines the name \<^verbatim>\<open>Constant\<close>.\<close>

definition pygments_with_Constant :: pygments where
  "pygments_with_Constant =
     pygments_release\<lparr>token_names := token_names pygments_release @ [''Constant'']\<rparr>"

text \<open>\<^verbatim>\<open>from m import n1, n2, ...\<close>, given the names that \<open>m\<close> defines.\<close>

definition cannot_import :: "string \<Rightarrow> string \<Rightarrow> exn" where
  "cannot_import n m =
     Exn ImportError
       (''cannot import name '' @ [CHR 0x27] @ n @ [CHR 0x27] @ '' from '' @ [CHR 0x27] @ m
          @ [CHR 0x27])"

fun import_from :: "string \<Rightarrow> string list \<Rightarrow> string list \<Rightarrow> exn + unit" where
  "import_from m defined [] = Inr ()"
| "import_from m defined (n # ns) =
     (if n \<in> set defined then import_from m defined ns else Inl (cannot_import n m))"

text \<open>
  Executing the module: the two import statements; after them the class statement binds
  the table (below) and raises nothing.
\<close>

definition lexer_module :: "pygments \<Rightarrow> exn + unit" where
  "lexer_module lib =
     (case import_from ''pygments.lexer'' (lexer_names lib) [''RegexLexer'', ''bygroups''] of
        Inl e \<Rightarrow> Inl e
      | Inr u \<Rightarrow>
          import_from ''pygments.token'' (token_names lib)
            [''Text'', ''Comment'', ''Keyword'', ''Name'', ''Operator'', ''Punctuation'', ''String'',
             ''Number'', ''Constant''])"

subsection \<open>Regular expressions with Python's backtracking order\<close>

text \<open>
  The constructs that occur in \<^verbatim>\<open>lexer.py\<close>: literal text, a character class, sequence,
  ordered alternative, the greedy star, the word boundary \<^verbatim>\<open>\b\<close>, the end of line \<^verbatim>\<open>$\<close>
  (the lexer compiles with \<^verbatim>\<open>re.MULTILINE\<close>) and the lookahead \<^verbatim>\<open>(?=...)\<close>.
\<close>

datatype re =
    Lit string
  | Cls "char \<Rightarrow> bool"
  | Seq re re
  | Alt re re
  | Star re
  | WordB
  | Eol
  | Look re

text \<open>\<^verbatim>\<open>r+\<close> and \<^verbatim>\<open>r?\<close>, both greedy; sequences and alternatives of several parts.\<close>

definition Plus :: "re \<Rightarrow> re" where
  "Plus r = Seq r (Star r)"

definition Opt :: "re \<Rightarrow> re" where
  "Opt r = Alt r (Lit [])"

fun seqs :: "re list \<Rightarrow> re" where
  "seqs [] = Lit []"
| "seqs [r] = r"
| "seqs (r # s # rs) = Seq r (seqs (s # rs))"

fun alts :: "re list \<Rightarrow> re" where
  "alts [] = Cls (\<lambda>c. False)"
| "alts [r] = r"
| "alts (r # s # rs) = Alt r (alts (s # rs))"

text \<open>
  \<^verbatim>\<open>\w\<close> on code points below 256: letters, digits, the underscore, and the Latin-1
  characters that \<^verbatim>\<open>str.isalnum\<close> accepts.
\<close>

definition in_range :: "char \<Rightarrow> char \<Rightarrow> char \<Rightarrow> bool" where
  "in_range lo hi c = ((of_char lo :: nat) \<le> of_char c \<and> (of_char c :: nat) \<le> of_char hi)"

definition is_word :: "char \<Rightarrow> bool" where
  "is_word c =
     (in_range CHR ''a'' CHR ''z'' c \<or> in_range CHR ''A'' CHR ''Z'' c \<or> in_range CHR ''0'' CHR ''9'' c
      \<or> c = CHR ''_''
      \<or> of_char c \<in> {170::nat, 178, 179, 181, 185, 186, 188, 189, 190}
      \<or> in_range (CHR 0xC0) (CHR 0xD6) c \<or> in_range (CHR 0xD8) (CHR 0xF6) c
      \<or> in_range (CHR 0xF8) (CHR 0xFF) c)"

text \<open>
  A position in the text: the characters before it, nearest first, and the characters
  after it.
\<close>

type_synonym position = "string \<times> string"

fun word_before :: "string \<Rightarrow> bool" where
  "word_before [] = False"
| "word_before (c # b) = is_word c"

text \<open>
  All ways in which a regular expression matches at a position, as the positions where the
  match ends, in the order in which backtracking tries them. \<^verbatim>\<open>re.match\<close> returns the first.
  An iteration of a star that consumes nothing is not repeated.
\<close>

fun ends :: "re \<Rightarrow> position \<Rightarrow> position list" where
  "ends (Lit s) (b, a) = (if prefix s a then [(rev s @ b, drop (length s) a)] else [])"
| "ends (Cls P) (b, a) = (case a of [] \<Rightarrow> [] | c # cs \<Rightarrow> if P c then [(c # b, cs)] else [])"
| "ends (Seq r s) st = concat (map (ends s) (ends r st))"
| "ends (Alt r s) st = ends r st @ ends s st"
| "ends (Star r) st =
     concat (map (ends (Star r)) (filter (\<lambda>st'. length (snd st') < length (snd st)) (ends r st))) @ [st]"
| "ends WordB (b, a) = (if word_before b \<noteq> word_before a then [(b, a)] else [])"
| "ends Eol (b, a) = (case a of [] \<Rightarrow> [(b, a)] | c # cs \<Rightarrow> if c = CHR 0x0A then [(b, a)] else [])"
| "ends (Look r) st = (if ends r st \<noteq> [] then [st] else [])"

declare ends.simps(5) [simp del]

subsection \<open>Token types and the rule table\<close>

text \<open>
  The token types that the table and the loop use, written \<^verbatim>\<open>Comment.Single\<close> and so on
  in Python. In the words of the specification: \<open>Text\<close> is Whitespace,
  \<open>Constant_Language\<close> is Constant, \<open>Constant_Numeric\<close> is Number, \<open>Name_Class\<close> is
  TypeName, \<open>Name_Variable\<close> is Variable and \<open>Name_Function\<close> is FunctionName.
\<close>

datatype token =
    Text
  | Whitespace
  | Error
  | Comment_Single
  | Comment_Multiline
  | String_Double
  | String_Single
  | String_Escape
  | Keyword
  | Constant_Language
  | Constant_Numeric
  | Name_Class
  | Name_Variable
  | Name_Function
  | Operator
  | Punctuation

text \<open>The states of the table.\<close>

datatype lexstate =
    root
  | comment_multiline_double_dash
  | comment_multiline
  | string_double
  | string_single

text \<open>The third component of a rule: a state to enter, or \<^verbatim>\<open>#pop\<close>.\<close>

datatype new_state = Push lexstate | Pop

type_synonym rule = "re \<times> token \<times> new_state option"

definition CONTROL_KEYWORDS :: "string list" where
  "CONTROL_KEYWORDS =
     [''abort'', ''assert'', ''if'', ''elif'', ''else'', ''fn'', ''pred'', ''let'', ''match'',
      ''ref'', ''return'', ''switch'', ''then'', ''var'', ''yield'', ''ensures'', ''invariant'',
      ''example'', ''requires'', ''validate'', ''softcheck'', ''errtest'', ''chektest'']"

definition OTHER_KEYWORDS :: "string list" where
  "OTHER_KEYWORDS =
     [''recursive'', ''action'', ''_debug'', ''bsqon'', ''example'', ''do'', ''fail'',
      ''implements'', ''debug'', ''release'', ''safety'', ''spec'', ''test'', ''api'',
      ''as'', ''concept'', ''const'', ''declare'', ''enum'', ''entity'', ''ensures'',
      ''field'', ''function'', ''invariant'', ''method'', ''namespace'', ''of'',
      ''provides'', ''requires'', ''in'', ''task'', ''datatype'', ''using'', ''validate'',
      ''when'', ''event'', ''status'', ''resource'', ''predicate'', ''softcheck'',
      ''errtest'', ''chektest'', ''operator'', ''variant'']"

definition KEYWORDS :: "string list" where
  "KEYWORDS = CONTROL_KEYWORDS @ OTHER_KEYWORDS"

definition CONSTANTS_LANGUAGE :: "string list" where
  "CONSTANTS_LANGUAGE =
     [''none'', ''true'', ''false'', ''fail'', ''ok'', ''some'', ''result'', ''option'', ''env'',
      ''this'', ''self'']"

text \<open>The character classes of the patterns.\<close>

definition digit :: "char \<Rightarrow> bool" where
  "digit c = in_range CHR ''0'' CHR ''9'' c"

definition upper :: "char \<Rightarrow> bool" where
  "upper c = in_range CHR ''A'' CHR ''Z'' c"

text \<open>\<^verbatim>\<open>[_a-z]\<close>\<close>

definition lower_us :: "char \<Rightarrow> bool" where
  "lower_us c = (c = CHR ''_'' \<or> in_range CHR ''a'' CHR ''z'' c)"

text \<open>\<^verbatim>\<open>[a-zA-Z_]\<close>\<close>

definition alpha_us :: "char \<Rightarrow> bool" where
  "alpha_us c = (in_range CHR ''a'' CHR ''z'' c \<or> in_range CHR ''A'' CHR ''Z'' c \<or> c = CHR ''_'')"

text \<open>\<^verbatim>\<open>[_a-zA-Z0-9]\<close>, also written \<^verbatim>\<open>[a-zA-Z0-9_]\<close>\<close>

definition ident_char :: "char \<Rightarrow> bool" where
  "ident_char c =
     (c = CHR ''_'' \<or> in_range CHR ''a'' CHR ''z'' c \<or> in_range CHR ''A'' CHR ''Z'' c
      \<or> in_range CHR ''0'' CHR ''9'' c)"

text \<open>\<^verbatim>\<open>.\<close> without \<^verbatim>\<open>re.DOTALL\<close>\<close>

definition not_newline :: "char \<Rightarrow> bool" where
  "not_newline c = (c \<noteq> CHR 0x0A)"

definition one_of :: "string \<Rightarrow> char \<Rightarrow> bool" where
  "one_of s c = (c \<in> set s)"

definition none_of :: "string \<Rightarrow> char \<Rightarrow> bool" where
  "none_of s c = (c \<notin> set s)"

text \<open>\<^verbatim>\<open>r'\b(' + '|'.join(KEYWORDS) + r')\b'\<close>\<close>

definition KEYWORDS_REGEX :: re where
  "KEYWORDS_REGEX = seqs [WordB, alts (map Lit KEYWORDS), WordB]"

definition CONSTANTS_LANGUAGE_REGEX :: re where
  "CONSTANTS_LANGUAGE_REGEX = seqs [WordB, alts (map Lit CONSTANTS_LANGUAGE), WordB]"

definition CONSTANTS_NUMERIC_REGEX :: re where
  "CONSTANTS_NUMERIC_REGEX =
     alts [
       seqs [WordB, seqs [Plus (Cls digit), Cls (one_of ''inIN'')], WordB],
       seqs [WordB,
             Alt (seqs [Plus (Cls digit), Cls (one_of ''R'')])
                 (seqs [Plus (Cls digit), Lit ''/'', Plus (Cls digit), Cls (one_of ''R'')]),
             WordB],
       seqs [WordB,
             seqs [Plus (Cls digit), Lit ''.'', Plus (Cls digit),
                   Opt (seqs [Cls (one_of ''eE''), Opt (Cls (one_of ''-+'')), Plus (Cls digit)]),
                   Cls (one_of ''fd'')],
             WordB],
       seqs [WordB, Plus (Cls digit), WordB]]"

definition TYPES_REGEX :: re where
  "TYPES_REGEX =
     Alt (seqs [WordB,
                seqs [Star (seqs [seqs [Cls upper, Plus (Cls ident_char)], Lit ''::'']),
                      seqs [Cls upper, Plus (Cls ident_char)]],
                WordB])
         (seqs [WordB, Cls upper, WordB])"

definition VARIABLES_REGEX :: re where
  "VARIABLES_REGEX =
     seqs [WordB,
           Alt (Cls (one_of ''$''))
               (seqs [Opt (Cls (one_of ''$'')),
                      Alt (Cls lower_us) (seqs [Cls lower_us, Plus (Cls ident_char)])]),
           WordB]"

definition FUNCTION_NAME_REGEX :: re where
  "FUNCTION_NAME_REGEX =
     seqs [WordB, seqs [Cls alpha_us, Star (Cls ident_char)], Star (Cls isspace),
           Look (Lit [CHR 0x28])]"

text \<open>
  The dictionary \<^verbatim>\<open>tokens\<close> of the class body, state by state, in the order of the
  source. The class body is reached only when the imports of the module have succeeded
  (\<open>lexer_module\<close> above); the tokenizer of the program is
  \<open>BosqueLexer_get_tokens_unprocessed\<close> below, which loads the module first.
\<close>

fun tokens :: "lexstate \<Rightarrow> rule list" where
  "tokens root =
     [(Plus (Cls isspace), Text, None),
      (seqs [Lit ''%%'', Star (Cls not_newline), Eol], Comment_Single, None),
      (Lit ''%**'', Comment_Multiline, Some (Push comment_multiline_double_dash)),
      (Lit ''%*'', Comment_Multiline, Some (Push comment_multiline)),
      (Lit [CHR 0x22], String_Double, Some (Push string_double)),
      (Lit [CHR 0x27], String_Single, Some (Push string_single)),
      (KEYWORDS_REGEX, Keyword, None),
      (CONSTANTS_LANGUAGE_REGEX, Constant_Language, None),
      (CONSTANTS_NUMERIC_REGEX, Constant_Numeric, None),
      (TYPES_REGEX, Name_Class, None),
      (VARIABLES_REGEX, Name_Variable, None),
      (FUNCTION_NAME_REGEX, Name_Function, None),
      (Plus (Cls (one_of ''+-*/=<>!'')), Operator, None),
      (Cls (one_of ''{}()[];,''), Punctuation, None)]"
| "tokens comment_multiline_double_dash =
     [(Lit ''*%'', Comment_Multiline, Some Pop),
      (Plus (Cls (none_of ''*%'')), Comment_Multiline, None),
      (Plus (Cls (one_of ''*/%'')), Comment_Multiline, None)]"
| "tokens comment_multiline =
     [(Lit ''*%'', Comment_Multiline, Some Pop),
      (Plus (Cls (none_of ''*%'')), Comment_Multiline, None),
      (Plus (Cls (one_of ''*/%'')), Comment_Multiline, None)]"
| "tokens string_double =
     [(Lit [CHR 0x5C, CHR 0x27], String_Escape, None),
      (Seq (Lit [CHR 0x5C]) (Cls not_newline), String_Escape, None),
      (Plus (Cls (none_of [CHR 0x22, CHR 0x5C])), String_Double, None),
      (Lit [CHR 0x22], String_Double, Some Pop)]"
| "tokens string_single =
     [(Lit [CHR 0x5C, CHR 0x22], String_Escape, None),
      (Seq (Lit [CHR 0x5C]) (Cls not_newline), String_Escape, None),
      (Plus (Cls (none_of [CHR 0x27, CHR 0x5C])), String_Single, None),
      (Lit [CHR 0x27], String_Single, Some Pop)]"

subsection \<open>The scanning loop of \<^verbatim>\<open>RegexLexer.get_tokens_unprocessed\<close>\<close>

text \<open>The first rule of a state that matches, with the end of its first match.\<close>

fun first_match :: "rule list \<Rightarrow> position \<Rightarrow> (token \<times> new_state option \<times> position) option" where
  "first_match [] st = None"
| "first_match ((rex, action, new_state) # rules) st =
     (case ends rex st of
        [] \<Rightarrow> first_match rules st
      | m # ms \<Rightarrow> Some (action, new_state, m))"

text \<open>
  The state stack, its top first. \<^verbatim>\<open>#pop\<close> keeps at least one state on the stack.
\<close>

fun next_stack :: "new_state option \<Rightarrow> lexstate list \<Rightarrow> lexstate list" where
  "next_stack None statestack = statestack"
| "next_stack (Some (Push s)) statestack = s # statestack"
| "next_stack (Some Pop) statestack = (if length statestack > 1 then tl statestack else statestack)"

text \<open>
  The loop \<^verbatim>\<open>while 1\<close>, one iteration for each unit of fuel; running out of fuel is
  \<open>None\<close>. A token is yielded as its position, its type and its text. Where no rule
  matches, a newline resets the stack to \<open>root\<close> and any other character becomes an
  \<open>Error\<close> token; at the end of the text the loop ends.
\<close>

fun scan :: "nat \<Rightarrow> lexstate list \<Rightarrow> position \<Rightarrow> (nat \<times> token \<times> string) list option" where
  "scan 0 statestack st = None"
| "scan (Suc n) [] st = None"
| "scan (Suc n) (s # ss) (b, a) =
     (case first_match (tokens s) (b, a) of
        Some (action, new_state, (b', a')) \<Rightarrow>
          map_option ((#) (length b, action, take (length a - length a') a))
            (scan n (next_stack new_state (s # ss)) (b', a'))
      | None \<Rightarrow>
          (case a of
             [] \<Rightarrow> Some []
           | c # cs \<Rightarrow>
               if c = CHR 0x0A then
                 map_option ((#) (length b, Whitespace, [c])) (scan n [root] (c # b, cs))
               else
                 map_option ((#) (length b, Error, [c])) (scan n (s # ss) (c # b, cs))))"

text \<open>
  \<^verbatim>\<open>get_tokens_unprocessed(text)\<close>: the scan from the start of the text in state \<open>root\<close>.
  One iteration more than the text has characters is enough for this table (proved below).
\<close>

definition get_tokens_unprocessed :: "string \<Rightarrow> (nat \<times> token \<times> string) list option" where
  "get_tokens_unprocessed text = scan (Suc (length text)) [root] ([], text)"

text \<open>
  The tokenizer as the program has it: using \<^verbatim>\<open>BosqueLexer\<close> means importing
  \<^verbatim>\<open>lexer.py\<close>, so an exception of the module's imports is the outcome of every call.
\<close>

definition BosqueLexer_get_tokens_unprocessed ::
  "pygments \<Rightarrow> string \<Rightarrow> exn + (nat \<times> token \<times> string) list option" where
  "BosqueLexer_get_tokens_unprocessed lib text =
     (case lexer_module lib of
        Inl e \<Rightarrow> Inl e
      | Inr u \<Rightarrow> Inr (get_tokens_unprocessed text))"

text \<open>
  The value of \<^verbatim>\<open>statestack\<close> when the loop ends: the same loop, observed at its
  \<^verbatim>\<open>break\<close>. An input ends inside a literal or a comment when the top of this stack is
  the state of that literal or comment.
\<close>

fun final_stack :: "nat \<Rightarrow> lexstate list \<Rightarrow> position \<Rightarrow> lexstate list option" where
  "final_stack 0 statestack st = None"
| "final_stack (Suc n) [] st = None"
| "final_stack (Suc n) (s # ss) (b, a) =
     (case first_match (tokens s) (b, a) of
        Some (action, new_state, (b', a')) \<Rightarrow>
          final_stack n (next_stack new_state (s # ss)) (b', a')
      | None \<Rightarrow>
          (case a of
             [] \<Rightarrow> Some (s # ss)
           | c # cs \<Rightarrow>
               if c = CHR 0x0A then final_stack n [root] (c # b, cs)
               else final_stack n (s # ss) (c # b, cs)))"

definition final_statestack :: "string \<Rightarrow> lexstate list option" where
  "final_statestack text = final_stack (Suc (length text)) [root] ([], text)"

definition ends_inside :: "lexstate \<Rightarrow> string \<Rightarrow> bool" where
  "ends_inside s text = (case final_statestack text of Some (t # ts) \<Rightarrow> t = s | _ \<Rightarrow> False)"

text \<open>
  A token inside a double-quoted literal: not a quote, and of type \<open>String_Double\<close> or
  \<open>String_Escape\<close>, or the \<open>Error\<close> token of a backslash. A token inside a block comment: of
  type \<open>Comment_Multiline\<close> and not the close marker.
\<close>

definition in_literal :: "nat \<times> token \<times> string \<Rightarrow> bool" where
  "in_literal t =
     (case t of (p, k, v) \<Rightarrow>
        v \<noteq> [CHR 0x22]
        \<and> (k = String_Double \<or> k = String_Escape \<or> (k = Error \<and> v = [CHR 0x5C])))"

definition in_comment :: "nat \<times> token \<times> string \<Rightarrow> bool" where
  "in_comment t = (case t of (p, k, v) \<Rightarrow> k = Comment_Multiline \<and> v \<noteq> ''*%'')"

text \<open>The texts of the tokens, and tokens that follow one another without gap or overlap.\<close>

definition token_texts :: "(nat \<times> token \<times> string) list \<Rightarrow> string list" where
  "token_texts toks = map (\<lambda>(p, k, v). v) toks"

fun contiguous :: "nat \<Rightarrow> (nat \<times> token \<times> string) list \<Rightarrow> bool" where
  "contiguous p [] = True"
| "contiguous p ((q, k, v) # toks) = (q = p \<and> v \<noteq> [] \<and> contiguous (p + length v) toks)"

text \<open>The least number of characters a match of a regular expression consumes.\<close>

fun minlen :: "re \<Rightarrow> nat" where
  "minlen (Lit s) = length s"
| "minlen (Cls P) = 1"
| "minlen (Seq r s) = minlen r + minlen s"
| "minlen (Alt r s) = min (minlen r) (minlen s)"
| "minlen (Star r) = 0"
| "minlen WordB = 0"
| "minlen Eol = 0"
| "minlen (Look r) = 0"

section \<open>Properties of the bridge and the session controller\<close>

subsection \<open>Auxiliary facts\<close>

lemma bind_assoc: "bind (bind m f) g = bind m (\<lambda>x. bind (f x) g)"
  by (rule ext) (simp add: bind_def split: prod.splits sum.splits)

lemma compile_bosque_decomp:
  "compile_bosque self code wd =
     bind (compiler_run self code wd) (\<lambda>compile_proc.
     bind (os_remove (os_path_join wd (Rel [''source.bsq'']))) (\<lambda>_.
      if returncode compile_proc \<noteq> 0 then
         raise (Exn BosqueExecutionError (''Compilation failed: '' @ str_or (strip (stderr compile_proc)) ''Unknown compilation error.''))
      else (\<lambda>w.
        if \<not> os_path_isdir w (os_path_join wd (Rel [''jsout''])) then
          raise (Exn BosqueExecutionError
            (''Compilation succeeded but output directory '' @ [CHR 0x27] @ str_path (os_path_join wd (Rel [''jsout'']))
               @ [CHR 0x27] @ '' was not found.'')) w
        else ret (os_path_join wd (Rel [''jsout''])) w)))"
  unfolding compile_bosque_def compiler_run_def Let_def bind_assoc by (rule refl)

lemma map_of_filter_neq: "map_of (filter (\<lambda>(k', v). k' \<noteq> k) f) k = None"
  by (induction f) auto

lemma absolute_fs_upd [simp]: "absolute (w\<lparr>fs := f\<rparr>) p = absolute w p"
  by (cases p) simp_all

lemma lookup_del: "\<not> is_file_node (lookup (fs_del k f) k)"
  by (simp add: lookup_def fs_del_def map_of_filter_neq)

lemma remove_not_file: "\<not> os_path_isfile (snd (os_remove p w)) p"
  by (auto simp: os_remove_def os_path_isfile_def Let_def raise_def ret_def lookup_del split: option.splits node.splits)

lemma is_file_node_iff: "is_file_node x = (\<exists>c. x = Some (File c))"
  by (cases x rule: is_file_node.cases) auto

lemma remove_ok: "os_path_isfile w p \<Longrightarrow> fst (os_remove p w) = Inr ()"
  by (auto simp: os_remove_def os_path_isfile_def Let_def raise_def ret_def is_file_node_iff)

lemma compile_bosque_world:
  assumes "compiler_run self code wd w = (Inr cp, w3)"
  shows "snd (compile_bosque self code wd w) = snd (os_remove (os_path_join wd (Rel [''source.bsq''])) w3)"
  using assms
  by (simp add: compile_bosque_decomp bind_def raise_def ret_def split: prod.splits sum.splits)

lemma compile_failure:
  assumes run: "fst (compiler_run self code wd w) = Inr cp"
    and rc: "returncode cp \<noteq> 0"
    and src: "os_path_isfile (snd (compiler_run self code wd w)) (os_path_join wd (Rel [''source.bsq'']))"
  shows "fst (compile_and_execute self code wd w) =
     Inl (Exn BosqueExecutionError (''Compilation failed: '' @ str_or (strip (stderr cp)) ''Unknown compilation error.''))"
proof -
  obtain w3 where w3: "compiler_run self code wd w = (Inr cp, w3)"
    using run by (cases "compiler_run self code wd w") simp
  with src have "fst (os_remove (os_path_join wd (Rel [''source.bsq''])) w3) = Inr ()"
    by (simp add: remove_ok)
  then obtain w4 where "os_remove (os_path_join wd (Rel [''source.bsq''])) w3 = (Inr (), w4)"
    by (cases "os_remove (os_path_join wd (Rel [''source.bsq''])) w3") simp
  with w3 rc show ?thesis
    by (simp add: compile_and_execute_def compile_bosque_decomp bind_def raise_def)
qed

lemma runtime_outcome:
  assumes run: "fst (runtime_run self code wd w) = Inr ep"
  shows "fst (compile_and_execute self code wd w) =
     (if returncode ep \<noteq> 0
      then Inl (Exn BosqueExecutionError (''Execution failed: '' @ str_or (strip (stderr ep)) ''Unknown execution error.''))
      else Inr (stdout ep))"
  using run
  by (auto simp: compile_and_execute_def runtime_run_def execute_js_def bind_def raise_def ret_def Let_def
      split: prod.splits sum.splits)

lemma bind_InrE:
  assumes "bind m f w = (Inr r, w')"
  obtains v w1 where "m w = (Inr v, w1)" "f v w1 = (Inr r, w')"
  using assms by (auto simp: bind_def split: prod.splits sum.splits)

lemma chdir_cwd: "os_chdir (Abs c) w = (Inr v, w') \<Longrightarrow> cwd w' = c"
  by (auto simp: os_chdir_def ret_def raise_def split: option.splits node.splits)

lemma unless_silent_send_cwd: "unless_silent silent (send_response m) w = (x, w') \<Longrightarrow> cwd w' = cwd w"
  by (auto simp: unless_silent_def send_response_def ret_def split: if_splits)

lemma try_except_InrE:
  assumes "try_except m h w = (Inr r, w')"
  obtains "m w = (Inr r, w')" | e w1 where "m w = (Inl e, w1)" "h e w1 = (Inr r, w')"
  using assms by (auto simp: try_except_def split: prod.splits sum.splits)

lemma guarded_restore:
  assumes run: "bind (unless_silent silent (send_response m)) (\<lambda>_. bind os_getcwd (\<lambda>original_cwd.
              try_except (body original_cwd) (handler original_cwd))) w = (Inr r, w')"
    and body: "\<And>w1. body (Abs (cwd w)) w1 = (Inr r, w') \<Longrightarrow> cwd w' = cwd w"
    and handler: "\<And>e w1. handler (Abs (cwd w)) e w1 = (Inr r, w') \<Longrightarrow> cwd w' = cwd w"
  shows "cwd w' = cwd w"
proof -
  from run obtain u w0 where w0: "unless_silent silent (send_response m) w = (Inr u, w0)"
    and rest: "bind os_getcwd (\<lambda>original_cwd.
              try_except (body original_cwd) (handler original_cwd)) w0 = (Inr r, w')"
    by (rule bind_InrE)
  have c0: "cwd w0 = cwd w" using w0 by (rule unless_silent_send_cwd)
  from rest have "try_except (body (Abs (cwd w))) (handler (Abs (cwd w))) w0 = (Inr r, w')"
    by (simp add: bind_def os_getcwd_def ret_def c0)
  then show ?thesis
    by (rule try_except_InrE) (auto dest: body handler)
qed

lemma mkdtemp_programs: "tempfile_mkdtemp pre w = (r, w') \<Longrightarrow> programs w' = programs w"
  by (auto simp: tempfile_mkdtemp_def raise_def ret_def split: sum.splits prod.splits)

lemma absolute_join: "absolute w (os_path_join d (Rel [n])) = absolute w d @ [n]"
  by (cases d) simp_all

lemma lookup_child:
  assumes "lookup f (d @ [n]) = Some v"
  shows "lookup f d = Some Dir \<and> (d @ [n], v) \<in> set f"
proof -
  from assms have all: "list_all (\<lambda>p. p = [] \<or> map_of f p = Some Dir) (prefixes d)"
    and m: "map_of f (d @ [n]) = Some v"
    by (simp_all add: lookup_def split: if_splits)
  have "d \<in> set (prefixes d)" by simp
  with all have "d = [] \<or> map_of f d = Some Dir"
    unfolding list_all_iff by blast
  moreover have "list_all (\<lambda>p. p = [] \<or> map_of f p = Some Dir) (butlast (prefixes d))"
    using all unfolding list_all_iff by (auto dest: in_set_butlastD)
  ultimately have "lookup f d = Some Dir" by (auto simp: lookup_def)
  with m show ?thesis by (auto dest: map_of_SomeD)
qed

lemma isfile_listed:
  assumes "os_path_isfile w (os_path_join d (Rel [n]))"
  shows "n \<in> set (scandir w d)"
proof -
  from assms obtain c where "lookup (fs w) (absolute w d @ [n]) = Some (File c)"
    by (auto simp: os_path_isfile_def absolute_join is_file_node_iff)
  then have "lookup (fs w) (absolute w d) = Some Dir" and "(absolute w d @ [n], File c) \<in> set (fs w)"
    by (auto dest: lookup_child)
  then show ?thesis
    by (force simp: scandir_def os_path_isdir_def)
qed

lemma glob_two:
  "path_glob_ext w d ''.mjs'' @ path_glob_ext w d ''.js'' =
     map (\<lambda>n. os_path_join d (Rel [n])) (filter (suffix ''.mjs'') (scandir w d) @ filter (suffix ''.js'') (scandir w d))"
  by (simp add: path_glob_ext_def)

lemma hd_of_singleton_filter:
  assumes "filter (\<lambda>n. P n \<or> Q n) xs = [n]"
  shows "filter P xs @ filter Q xs \<noteq> [] \<and> hd (filter P xs @ filter Q xs) = n"
proof -
  define ys where "ys = filter P xs @ filter Q xs"
  have "set ys = set (filter (\<lambda>n. P n \<or> Q n) xs)" by (auto simp: ys_def)
  then have s: "set ys = {n}" using assms by simp
  then have ne: "ys \<noteq> []" by (cases ys) simp_all
  then have "hd ys \<in> set ys" by (rule hd_in_set)
  with s ne show ?thesis by (simp add: ys_def)
qed


lemmas io_defs = bind_def ret_def raise_def try_except_def Let_def

lemmas os_defs = open_write_def os_makedirs_def os_remove_def os_getcwd_def os_chdir_def
  subprocess_run_def shutil_which_def scandir_def path_glob_ext_def tempfile_mkdtemp_def
  os_path_isfile_def os_path_isdir_def lookup_def fs_del_def os_msg_def str_or_def strip_def
  isspace_def suffix_to_prefix

lemmas bridge_defs = compile_bosque_def find_main_js_def execute_js_def compile_and_execute_def
  compiler_run_def runtime_run_def BosqueWrapper_init_def

lemmas kernel_defs = do_execute_def bridge_outcome_def kernel_compile_and_execute_def
  unless_silent_def send_response_def send_error_def BosqueKernel_init_def unbound_name_def

lemmas example_defs = example_world_def example_kernel_def bosque_rejects_def bosque_emits_def
  node_prints_def node_crashes_def modules_world_def

subsection \<open>The outcomes of \<^verbatim>\<open>compile_and_execute\<close>\<close>

text \<open>
  Claim C1, as the code has it. When the compiler process has exited non-zero (and the
  source file is still there to be removed), \<^verbatim>\<open>compile_and_execute\<close> raises
  \<^verbatim>\<open>BosqueExecutionError\<close> with the message \<^verbatim>\<open>Compilation failed: \<close> followed by the
  compiler's standard-error text stripped of surrounding white space, or by
  \<^verbatim>\<open>Unknown compilation error.\<close> when the stripped text is empty. When the runtime process
  has exited non-zero it raises the same class \<^verbatim>\<open>BosqueExecutionError\<close> with the message
  \<^verbatim>\<open>Execution failed: \<close> followed by the stripped standard-error text or
  \<^verbatim>\<open>Unknown execution error.\<close>; when it has exited with zero the runtime's standard output
  is returned. The two failures have one exception class and differ in the first words of
  the message only.
\<close>

theorem compile_and_execute_one_error_kind:
  "(fst (compiler_run self code wd w) = Inr cp \<and> returncode cp \<noteq> 0 \<and>
      os_path_isfile (snd (compiler_run self code wd w)) (os_path_join wd (Rel [''source.bsq''])) \<longrightarrow>
    fst (compile_and_execute self code wd w) =
      Inl (Exn BosqueExecutionError
        (''Compilation failed: '' @ str_or (strip (stderr cp)) ''Unknown compilation error.'')))
   \<and> (fst (runtime_run self code wd w) = Inr ep \<longrightarrow>
    fst (compile_and_execute self code wd w) =
      (if returncode ep \<noteq> 0
       then Inl (Exn BosqueExecutionError
         (''Execution failed: '' @ str_or (strip (stderr ep)) ''Unknown execution error.''))
       else Inr (stdout ep)))
   \<and> ''Compilation failed: '' @ a \<noteq> ''Execution failed: '' @ b"
  by (auto dest: compile_failure runtime_outcome)

theorem compile_and_execute_one_error_kind_witness:
  "fst (compile_and_execute BosqueWrapper_init ''x'' (Abs [''tmp'', ''k''])
          (example_world (Some bosque_rejects) (Some node_prints))) =
     Inl (Exn BosqueExecutionError ''Compilation failed: parse error at line 3'')
   \<and> fst (compile_and_execute BosqueWrapper_init ''x'' (Abs [''tmp'', ''k''])
          (example_world (Some (bosque_emits ''foo.mjs'')) (Some node_crashes))) =
     Inl (Exn BosqueExecutionError ''Execution failed: boom'')
   \<and> fst (compile_and_execute BosqueWrapper_init ''x'' (Abs [''tmp'', ''k''])
          (example_world (Some (bosque_emits ''foo.mjs'')) (Some node_prints))) = Inr ''42''"
proof -
  let ?wd = "Abs [''tmp'', ''k'']"
  let ?w1 = "example_world (Some bosque_rejects) (Some node_prints)"
  let ?w2 = "example_world (Some (bosque_emits ''foo.mjs'')) (Some node_crashes)"
  let ?w3 = "example_world (Some (bosque_emits ''foo.mjs'')) (Some node_prints)"
  have h1: "fst (compiler_run BosqueWrapper_init ''x'' ?wd ?w1) =
        Inr \<lparr>returncode = 1, stdout = [], stderr = ''parse error at line 3''\<rparr>
      \<and> returncode \<lparr>returncode = 1, stdout = [], stderr = ''parse error at line 3''\<rparr> \<noteq> 0
      \<and> os_path_isfile (snd (compiler_run BosqueWrapper_init ''x'' ?wd ?w1))
            (os_path_join ?wd (Rel [''source.bsq'']))"
    by (simp add: io_defs os_defs bridge_defs example_defs)
  have h2: "fst (runtime_run BosqueWrapper_init ''x'' ?wd ?w2) =
        Inr \<lparr>returncode = 1, stdout = [], stderr = ''boom''\<rparr>"
    by (simp add: io_defs os_defs bridge_defs example_defs)
  have h3: "fst (runtime_run BosqueWrapper_init ''x'' ?wd ?w3) =
        Inr \<lparr>returncode = 0, stdout = ''42'', stderr = []\<rparr>"
    by (simp add: io_defs os_defs bridge_defs example_defs)
  note t = compile_and_execute_one_error_kind
  from t[THEN conjunct1, rule_format, OF h1]
    t[THEN conjunct2, THEN conjunct1, rule_format, OF h2]
    t[THEN conjunct2, THEN conjunct1, rule_format, OF h3]
  show ?thesis
    by (simp add: str_or_def strip_def isspace_def)
qed

text \<open>
  Claim C1 as stated asks for two distinct failure kinds. At a compiler that exits with 1
  and at a runtime that exits with 1 the exception raised has the same class.
\<close>

theorem compile_and_execute_kinds_not_distinct:
  "fst (compiler_run BosqueWrapper_init ''x'' (Abs [''tmp'', ''k''])
          (example_world (Some bosque_rejects) (Some node_prints))) =
     Inr \<lparr>returncode = 1, stdout = [], stderr = ''parse error at line 3''\<rparr>
   \<and> fst (runtime_run BosqueWrapper_init ''x'' (Abs [''tmp'', ''k''])
          (example_world (Some (bosque_emits ''foo.mjs'')) (Some node_crashes))) =
     Inr \<lparr>returncode = 1, stdout = [], stderr = ''boom''\<rparr>
   \<and> raised_kind (fst (compile_and_execute BosqueWrapper_init ''x'' (Abs [''tmp'', ''k''])
          (example_world (Some bosque_rejects) (Some node_prints)))) = Some BosqueExecutionError
   \<and> raised_kind (fst (compile_and_execute BosqueWrapper_init ''x'' (Abs [''tmp'', ''k''])
          (example_world (Some (bosque_emits ''foo.mjs'')) (Some node_crashes)))) = Some BosqueExecutionError"
  by (simp add: io_defs os_defs bridge_defs example_defs)

subsection \<open>Locating the entry module\<close>

text \<open>
  Claim C2. In every state of the output directory: when \<^verbatim>\<open>Main.mjs\<close> (the wrapper's
  \<^verbatim>\<open>main_js_filename\<close>) is a file there, \<^verbatim>\<open>find_main_js\<close> returns it; when it is not and
  exactly one entry of the directory has a name ending in \<^verbatim>\<open>.mjs\<close> or \<^verbatim>\<open>.js\<close>, that
  entry is returned; when no entry has such a name, \<^verbatim>\<open>find_main_js\<close> raises
  \<^verbatim>\<open>BosqueExecutionError\<close>. The world is left as it was.
\<close>

theorem find_main_js_selection:
  "(os_path_isfile w (os_path_join output_dir (Rel [main_js_filename self])) \<longrightarrow>
      find_main_js self output_dir w = (Inr (os_path_join output_dir (Rel [main_js_filename self])), w))
   \<and> (\<not> os_path_isfile w (os_path_join output_dir (Rel [main_js_filename self])) \<and>
        filter js_module_name (scandir w output_dir) = [n] \<longrightarrow>
      find_main_js self output_dir w = (Inr (os_path_join output_dir (Rel [n])), w))
   \<and> (main_js_filename self = ''Main.mjs'' \<and> filter js_module_name (scandir w output_dir) = [] \<longrightarrow>
      find_main_js self output_dir w =
        (Inl (Exn BosqueExecutionError
            (''Main JavaScript file '' @ [CHR 0x27] @ ''Main.mjs'' @ [CHR 0x27]
               @ '' not found in '' @ [CHR 0x27] @ str_path output_dir @ [CHR 0x27] @ ''.'')), w))"
proof (intro conjI impI)
  assume "os_path_isfile w (os_path_join output_dir (Rel [main_js_filename self]))"
  then show "find_main_js self output_dir w = (Inr (os_path_join output_dir (Rel [main_js_filename self])), w)"
    by (simp add: find_main_js_def ret_def)
next
  assume a: "\<not> os_path_isfile w (os_path_join output_dir (Rel [main_js_filename self])) \<and>
        filter js_module_name (scandir w output_dir) = [n]"
  then have "filter (\<lambda>n. suffix ''.mjs'' n \<or> suffix ''.js'' n) (scandir w output_dir) = [n]"
    by (simp add: js_module_name_def[abs_def])
  then have "filter (suffix ''.mjs'') (scandir w output_dir) @ filter (suffix ''.js'') (scandir w output_dir) \<noteq> []
     \<and> hd (filter (suffix ''.mjs'') (scandir w output_dir) @ filter (suffix ''.js'') (scandir w output_dir)) = n"
    by (rule hd_of_singleton_filter)
  then have "path_glob_ext w output_dir ''.mjs'' @ path_glob_ext w output_dir ''.js'' \<noteq> []
     \<and> hd (path_glob_ext w output_dir ''.mjs'' @ path_glob_ext w output_dir ''.js'') = os_path_join output_dir (Rel [n])"
    by (simp only: glob_two hd_map map_is_Nil_conv not_False_eq_True simp_thms)
  with a show "find_main_js self output_dir w = (Inr (os_path_join output_dir (Rel [n])), w)"
    by (simp add: find_main_js_def ret_def Let_def)
next
  assume a: "main_js_filename self = ''Main.mjs'' \<and> filter js_module_name (scandir w output_dir) = []"
  have "js_module_name ''Main.mjs''" by (simp add: js_module_name_def suffix_def)
  with a have "''Main.mjs'' \<notin> set (scandir w output_dir)"
    by (auto simp: filter_empty_conv)
  then have nf: "\<not> os_path_isfile w (os_path_join output_dir (Rel [''Main.mjs'']))"
    by (auto dest: isfile_listed)
  from a have "filter (suffix ''.mjs'') (scandir w output_dir) = []" "filter (suffix ''.js'') (scandir w output_dir) = []"
    by (auto simp: filter_empty_conv js_module_name_def)
  then have "path_glob_ext w output_dir ''.mjs'' @ path_glob_ext w output_dir ''.js'' = []"
    by (simp add: path_glob_ext_def)
  with a nf show "find_main_js self output_dir w =
        (Inl (Exn BosqueExecutionError
            (''Main JavaScript file '' @ [CHR 0x27] @ ''Main.mjs'' @ [CHR 0x27]
               @ '' not found in '' @ [CHR 0x27] @ str_path output_dir @ [CHR 0x27] @ ''.'')), w)"
    by (simp add: find_main_js_def raise_def Let_def)
qed



theorem find_main_js_selection_witness:
  "fst (find_main_js BosqueWrapper_init (Abs [''tmp'', ''k'', ''jsout'']) (modules_world [''foo.mjs'', ''Main.mjs''])) =
     Inr (Abs [''tmp'', ''k'', ''jsout'', ''Main.mjs''])
   \<and> fst (find_main_js BosqueWrapper_init (Abs [''tmp'', ''k'', ''jsout'']) (modules_world [''foo.mjs''])) =
     Inr (Abs [''tmp'', ''k'', ''jsout'', ''foo.mjs''])
   \<and> raised_kind (fst (find_main_js BosqueWrapper_init (Abs [''tmp'', ''k'', ''jsout'']) (modules_world [''notes.txt'']))) =
     Some BosqueExecutionError"
proof -
  let ?d = "Abs [''tmp'', ''k'', ''jsout'']"
  have h1: "os_path_isfile (modules_world [''foo.mjs'', ''Main.mjs''])
              (os_path_join ?d (Rel [main_js_filename BosqueWrapper_init]))"
    by (simp add: os_defs bridge_defs example_defs)
  have h2: "\<not> os_path_isfile (modules_world [''foo.mjs'']) (os_path_join ?d (Rel [main_js_filename BosqueWrapper_init]))
      \<and> filter js_module_name (scandir (modules_world [''foo.mjs'']) ?d) = [''foo.mjs'']"
    by (simp add: os_defs bridge_defs example_defs js_module_name_def)
  have h3: "main_js_filename BosqueWrapper_init = ''Main.mjs''
      \<and> filter js_module_name (scandir (modules_world [''notes.txt'']) ?d) = []"
    by (simp add: os_defs bridge_defs example_defs js_module_name_def)
  note t = find_main_js_selection
  from t[THEN conjunct1, rule_format, OF h1]
    t[THEN conjunct2, THEN conjunct1, rule_format, OF h2]
    t[THEN conjunct2, THEN conjunct2, rule_format, OF h3]
  show ?thesis
    by (simp add: BosqueWrapper_init_def)
qed

subsection \<open>The source file does not outlive the compile step\<close>

text \<open>
  Claim C3. For every source text: once the compiler process has been run and has
  returned, whatever its exit code, no file \<^verbatim>\<open>source.bsq\<close> is left in the working
  directory when \<^verbatim>\<open>compile_bosque\<close> ends, by returning or by raising. So the next
  execution does not find the source file of this one.
\<close>

theorem compile_bosque_removes_source:
  assumes "fst (compiler_run self bosque_code work_dir w) = Inr compile_proc"
  shows "\<not> os_path_isfile (snd (compile_bosque self bosque_code work_dir w))
            (os_path_join work_dir (Rel [''source.bsq'']))"
proof -
  obtain w3 where "compiler_run self bosque_code work_dir w = (Inr compile_proc, w3)"
    using assms by (cases "compiler_run self bosque_code work_dir w") simp
  then show ?thesis
    by (simp add: compile_bosque_world remove_not_file)
qed

theorem compile_bosque_removes_source_witness:
  "\<not> os_path_isfile (snd (compile_bosque BosqueWrapper_init ''x'' (Abs [''tmp'', ''k''])
            (example_world (Some bosque_rejects) (Some node_prints))))
        (Abs [''tmp'', ''k'', ''source.bsq''])
   \<and> \<not> os_path_isfile (snd (compile_bosque BosqueWrapper_init ''x'' (Abs [''tmp'', ''k''])
            (example_world (Some (bosque_emits ''Main.mjs'')) (Some node_prints))))
        (Abs [''tmp'', ''k'', ''source.bsq''])"
proof -
  let ?wd = "Abs [''tmp'', ''k'']"
  have h1: "fst (compiler_run BosqueWrapper_init ''x'' ?wd (example_world (Some bosque_rejects) (Some node_prints))) =
        Inr \<lparr>returncode = 1, stdout = [], stderr = ''parse error at line 3''\<rparr>"
    by (simp add: io_defs os_defs bridge_defs example_defs)
  have h2: "fst (compiler_run BosqueWrapper_init ''x'' ?wd (example_world (Some (bosque_emits ''Main.mjs'')) (Some node_prints))) =
        Inr \<lparr>returncode = 0, stdout = [], stderr = []\<rparr>"
    by (simp add: io_defs os_defs bridge_defs example_defs)
  from compile_bosque_removes_source[OF h1] compile_bosque_removes_source[OF h2]
  show ?thesis by simp
qed

subsection \<open>The working directory is restored\<close>

text \<open>
  Claim C4. For every execution request: whenever \<^verbatim>\<open>do_execute\<close> returns, on the
  success path, after a failure of the bridge, or after an unexpected exception, the working
  directory is the one that was current before the call.
\<close>

theorem do_execute_restores_cwd:
  assumes "fst (do_execute self code silent w) = Inr r"
  shows "cwd (snd (do_execute self code silent w)) = cwd w"
proof -
  obtain w' where "do_execute self code silent w = (Inr r, w')"
    using assms by (cases "do_execute self code silent w") simp
  moreover from this have "cwd w' = cwd w"
    unfolding do_execute_def
  proof (rule guarded_restore)
    fix w1
    assume "bind (try_except (os_chdir (temp_dir self))
                  (\<lambda>e. if is_OSError (exn_kind e)
                       then raise (Exn RuntimeError ''Failed to change working directory.'')
                       else raise e)) (\<lambda>_.
          bind (kernel_compile_and_execute self code) (\<lambda>output.
          bind (unless_silent silent (send_response (Stream ''stdout'' output))) (\<lambda>_.
          bind (os_chdir (Abs (cwd w))) (\<lambda>_.
          bind (unless_silent silent (send_response (Status ''idle''))) (\<lambda>_.
          ret \<lparr>status = ''ok'', reply_execution_count = execution_count self,
               ename = None, evalue = None\<rparr>))))) w1 = (Inr r, w')"
    then show "cwd w' = cwd w"
      by (elim bind_InrE) (auto simp: ret_def dest!: chdir_cwd unless_silent_send_cwd)
  next
    fix e w1
    assume "(if exn_kind e = BosqueExecutionError then
              bind (unless_silent silent (send_error e)) (\<lambda>_.
              bind (os_chdir (Abs (cwd w))) (\<lambda>_.
              ret \<lparr>status = ''error'', reply_execution_count = execution_count self,
                   ename = Some ''BosqueExecutionError'', evalue = Some (str_exn e)\<rparr>))
            else
              bind (unless_silent silent (send_error e)) (\<lambda>_.
              bind (os_chdir (Abs (cwd w))) (\<lambda>_.
              ret \<lparr>status = ''error'', reply_execution_count = execution_count self,
                   ename = Some (type_name (exn_kind e)), evalue = Some (str_exn e)\<rparr>))) w1 = (Inr r, w')"
    then show "cwd w' = cwd w"
      by (auto split: if_splits elim!: bind_InrE simp: ret_def dest!: chdir_cwd)
  qed
  ultimately show ?thesis by simp
qed

theorem do_execute_restores_cwd_witness:
  "cwd (snd (do_execute example_kernel ''x'' False
          (example_world (Some (bosque_emits ''Main.mjs'')) (Some node_prints)))) = [''home'']
   \<and> cwd (snd (do_execute example_kernel ''x'' False
          (example_world (Some bosque_rejects) (Some node_prints)))) = [''home'']
   \<and> cwd (snd (do_execute (example_kernel\<lparr>temp_dir := Abs [''gone'']\<rparr>) ''x'' False
          (example_world (Some bosque_rejects) (Some node_prints)))) = [''home'']"
proof -
  have h1: "fst (do_execute example_kernel ''x'' False
          (example_world (Some (bosque_emits ''Main.mjs'')) (Some node_prints))) =
      Inr \<lparr>status = ''ok'', reply_execution_count = 1, ename = None, evalue = None\<rparr>"
    by (simp add: io_defs os_defs bridge_defs kernel_defs example_defs)
  have h2: "fst (do_execute example_kernel ''x'' False
          (example_world (Some bosque_rejects) (Some node_prints))) =
      Inr \<lparr>status = ''error'', reply_execution_count = 1, ename = Some ''BosqueExecutionError'',
           evalue = Some ''Execution failed: Compilation failed: parse error at line 3''\<rparr>"
    by (simp add: io_defs os_defs bridge_defs kernel_defs example_defs)
  have h3: "fst (do_execute (example_kernel\<lparr>temp_dir := Abs [''gone'']\<rparr>) ''x'' False
          (example_world (Some bosque_rejects) (Some node_prints))) =
      Inr \<lparr>status = ''error'', reply_execution_count = 1, ename = Some ''RuntimeError'',
           evalue = Some ''Failed to change working directory.''\<rparr>"
    by (simp add: io_defs os_defs bridge_defs kernel_defs example_defs)
  from do_execute_restores_cwd[OF h1] do_execute_restores_cwd[OF h2] do_execute_restores_cwd[OF h3]
  show ?thesis by (simp add: example_world_def)
qed

subsection \<open>A failure of the bridge becomes an error reply\<close>

text \<open>
  Claim C5, with the proviso that the code needs. For every execution request that reaches
  the bridge and whose compile or execute step fails with an exception \<open>e\<close>, provided the
  directory that was current before the request still exists when the handler enters it
  again: \<^verbatim>\<open>do_execute\<close> returns, and the reply has the status \<^verbatim>\<open>error\<close>, the error name
  \<^verbatim>\<open>BosqueExecutionError\<close> and the message text of \<open>e\<close> after \<^verbatim>\<open>Execution failed: \<close>. The
  working directory is the one from before the request, so the next request starts as this
  one did.
\<close>

theorem do_execute_reports_bridge_failure:
  assumes out: "fst (bridge_outcome self code silent w) = Inr (Inl e)"
    and dir: "os_path_isdir (snd (bridge_outcome self code silent w)) (Abs (cwd w))"
  shows "fst (do_execute self code silent w) =
           Inr \<lparr>status = ''error'', reply_execution_count = execution_count self,
                ename = Some ''BosqueExecutionError'', evalue = Some (''Execution failed: '' @ str_exn e)\<rparr>
         \<and> cwd (snd (do_execute self code silent w)) = cwd w"
proof -
  obtain u w0 where w0: "unless_silent silent (send_response (Status ''busy'')) w = (Inr u, w0)"
    by (cases silent) (simp_all add: unless_silent_def send_response_def ret_def)
  have c0: "cwd w0 = cwd w" using w0 by (rule unless_silent_send_cwd)
  from out w0 obtain u1 w1 where w1: "os_chdir (temp_dir self) w0 = (Inr u1, w1)"
    by (cases "os_chdir (temp_dir self) w0" rule: prod.exhaust[case_product sum.exhaust])
       (auto simp: bridge_outcome_def bind_def os_getcwd_def ret_def split: prod.splits sum.splits)
  obtain r2 w2 where w2: "compile_and_execute (bosque self) code (temp_dir self) w1 = (r2, w2)"
    by (cases "compile_and_execute (bosque self) code (temp_dir self) w1") simp
  from out dir w0 w1 w2 have r2: "r2 = Inl e" and d2: "os_path_isdir w2 (Abs (cwd w))"
    by (simp_all add: bridge_outcome_def bind_def os_getcwd_def ret_def)
  obtain u3 w3 where w3: "unless_silent silent (send_error (Exn BosqueExecutionError (''Execution failed: '' @ str_exn e))) w2 = (Inr u3, w3)"
    and f3: "fs w3 = fs w2"
    by (cases silent) (simp_all add: unless_silent_def send_error_def send_response_def ret_def)
  from d2 f3 have w4: "os_chdir (Abs (cwd w)) w3 = (Inr (), w3\<lparr>cwd := cwd w\<rparr>)"
    by (simp add: os_chdir_def os_path_isdir_def ret_def)
  have "do_execute self code silent w =
      (Inr \<lparr>status = ''error'', reply_execution_count = execution_count self,
                ename = Some ''BosqueExecutionError'', evalue = Some (''Execution failed: '' @ str_exn e)\<rparr>,
       w3\<lparr>cwd := cwd w\<rparr>)"
    using w0 w1 w2 r2 w3 w4 c0
    by (simp add: do_execute_def bind_def os_getcwd_def ret_def try_except_def raise_def
        kernel_compile_and_execute_def)
  then show ?thesis by simp
qed

theorem do_execute_reports_bridge_failure_witness:
  "fst (do_execute example_kernel ''x'' False (example_world (Some bosque_rejects) (Some node_prints))) =
     Inr \<lparr>status = ''error'', reply_execution_count = 1, ename = Some ''BosqueExecutionError'',
          evalue = Some ''Execution failed: Compilation failed: parse error at line 3''\<rparr>
   \<and> cwd (snd (do_execute example_kernel ''x'' False (example_world (Some bosque_rejects) (Some node_prints)))) =
     [''home'']"
proof -
  let ?w = "example_world (Some bosque_rejects) (Some node_prints)"
  have h1: "fst (bridge_outcome example_kernel ''x'' False ?w) =
      Inr (Inl (Exn BosqueExecutionError ''Compilation failed: parse error at line 3''))"
    by (simp add: io_defs os_defs bridge_defs kernel_defs example_defs)
  have h2: "os_path_isdir (snd (bridge_outcome example_kernel ''x'' False ?w)) (Abs (cwd ?w))"
    by (simp add: io_defs os_defs bridge_defs kernel_defs example_defs)
  from do_execute_reports_bridge_failure[OF h1 h2]
  show ?thesis by (simp add: example_defs)
qed

text \<open>
  Claim C5 as stated, without the proviso, fails. The compiler exits with code 1 and has
  removed the directory \<^verbatim>\<open>/home\<close>, which was current when the request began. The bridge
  fails with \<^verbatim>\<open>BosqueExecutionError\<close>, the handler sends the error and then executes
  \<^verbatim>\<open>os.chdir(original_cwd)\<close>, which no \<^verbatim>\<open>try\<close> guards: \<^verbatim>\<open>do_execute\<close> raises
  \<^verbatim>\<open>FileNotFoundError\<close> and returns no reply.
\<close>

theorem do_execute_raises_when_start_directory_is_gone:
  "fst (bridge_outcome example_kernel ''x'' False
          (example_world (Some (bosque_rejects_and_removes [''home''])) (Some node_prints))) =
     Inr (Inl (Exn BosqueExecutionError ''Compilation failed: parse error at line 3''))
   \<and> fst (do_execute example_kernel ''x'' False
          (example_world (Some (bosque_rejects_and_removes [''home''])) (Some node_prints))) =
     Inl (Exn FileNotFoundError (os_msg ''[Errno 2] No such file or directory'' (Abs [''home''])))"
  by (simp add: io_defs os_defs bridge_defs kernel_defs example_defs bosque_rejects_and_removes_def)

subsection \<open>Construction with a missing executable\<close>

text \<open>
  Claim C6, as the code has it. When \<^verbatim>\<open>bosque\<close> or \<^verbatim>\<open>node\<close> is not found on the search
  path, constructing the kernel raises, but what it raises is the \<^verbatim>\<open>NameError\<close> of the
  statement \<^verbatim>\<open>raise es\<close>; its message does not name the missing executable.
\<close>

theorem init_missing_executable_raises_NameError:
  "\<not> shutil_which w ''bosque'' \<or> \<not> shutil_which w ''node'' \<Longrightarrow>
     fst (BosqueKernel_init w) = Inl (Exn NameError ''name 'es' is not defined'')"
  unfolding BosqueKernel_init_def bind_def try_except_def Let_def ret_def raise_def unbound_name_def
  by (auto split: prod.splits sum.splits dest!: mkdtemp_programs simp: shutil_which_def)

theorem init_missing_executable_raises_NameError_witness:
  "fst (BosqueKernel_init (example_world None (Some node_prints))) =
     Inl (Exn NameError ''name 'es' is not defined'')"
proof -
  have h: "\<not> shutil_which (example_world None (Some node_prints)) ''bosque''
        \<or> \<not> shutil_which (example_world None (Some node_prints)) ''node''"
    by (simp add: shutil_which_def example_world_def)
  from init_missing_executable_raises_NameError[OF h] show ?thesis .
qed

section \<open>Properties of the tokenizer\<close>

subsection \<open>The module does not load\<close>

lemma lexer_module_release:
  "lexer_module pygments_release = Inl (cannot_import ''Constant'' ''pygments.token'')"
  by code_simp

lemma lexer_module_with_Constant: "lexer_module pygments_with_Constant = Inr ()"
  by code_simp

text \<open>
  Claim C7 fails on the code. With the released Pygments the second statement of
  \<^verbatim>\<open>lexer.py\<close> raises \<^verbatim>\<open>ImportError\<close>, because \<^verbatim>\<open>pygments.token\<close> defines no name
  \<^verbatim>\<open>Constant\<close>: for every input text the tokenizer yields this exception and no sequence of
  tokens, so nothing tiles the input.
\<close>

theorem BosqueLexer_raises_ImportError:
  "BosqueLexer_get_tokens_unprocessed pygments_release text =
     Inl (cannot_import ''Constant'' ''pygments.token'')"
  by (simp add: BosqueLexer_get_tokens_unprocessed_def lexer_module_release)

text \<open>
  Claim C8 fails on the code for the same reason. On the inputs \<^verbatim>\<open>iffy\<close>, \<^verbatim>\<open>42\<close> and
  \<^verbatim>\<open>42i\<close> the tokenizer yields \<^verbatim>\<open>ImportError\<close>: no \<open>Name_Variable\<close> token for \<^verbatim>\<open>iffy\<close> and no
  single number token for \<^verbatim>\<open>42\<close> or \<^verbatim>\<open>42i\<close>.
\<close>

theorem keyword_and_number_examples_raise_ImportError:
  "BosqueLexer_get_tokens_unprocessed pygments_release ''iffy'' =
     Inl (cannot_import ''Constant'' ''pygments.token'')
   \<and> BosqueLexer_get_tokens_unprocessed pygments_release ''42'' =
     Inl (cannot_import ''Constant'' ''pygments.token'')
   \<and> BosqueLexer_get_tokens_unprocessed pygments_release ''42i'' =
     Inl (cannot_import ''Constant'' ''pygments.token'')"
  by (simp add: BosqueLexer_get_tokens_unprocessed_def lexer_module_release)

text \<open>
  The rest of this section is about the rule table and the scanning loop, which run only
  where the module loads: with a Pygments that defines the name \<^verbatim>\<open>Constant\<close>.
\<close>

subsection \<open>Matches consume text, and every rule of the table consumes at least one character\<close>

lemma in_ends_SeqE:
  assumes "st' \<in> set (ends (Seq r s) st)"
  obtains st1 where "st1 \<in> set (ends r st)" "st' \<in> set (ends s st1)"
  using assms by auto

lemma in_ends_AltE:
  assumes "st' \<in> set (ends (Alt r s) st)"
  obtains "st' \<in> set (ends r st)" | "st' \<in> set (ends s st)"
  using assms by auto

lemma in_ends_StarE:
  assumes "st' \<in> set (ends (Star r) st)"
  obtains "st' = st"
    | st1 where "st1 \<in> set (filter (\<lambda>st'. length (snd st') < length (snd st)) (ends r st))"
        "st' \<in> set (ends (Star r) st1)"
  using assms by (subst (asm) ends.simps(5)) auto

lemma ends_split:
  "st' \<in> set (ends r st) \<Longrightarrow> \<exists>m. snd st = m @ snd st' \<and> fst st' = rev m @ fst st"
proof (induction r st arbitrary: st' rule: ends.induct)
  case (1 s b a)
  from "1.prems" show ?case by (auto simp: prefix_def split: if_splits)
next
  case (2 P b a)
  from "2.prems" show ?case by (auto split: list.splits if_splits)
next
  case (3 r s st)
  from "3.prems" obtain st1 where a: "st1 \<in> set (ends r st)" and b: "st' \<in> set (ends s st1)"
    by (rule in_ends_SeqE)
  from "3.IH"(1)[OF a] obtain m1 where m1: "snd st = m1 @ snd st1" "fst st1 = rev m1 @ fst st" by blast
  from "3.IH"(2)[OF a b] obtain m2 where m2: "snd st1 = m2 @ snd st'" "fst st' = rev m2 @ fst st1" by blast
  from m1 m2 have "snd st = (m1 @ m2) @ snd st' \<and> fst st' = rev (m1 @ m2) @ fst st" by simp
  then show ?case by blast
next
  case (4 r s st)
  from "4.prems" show ?case
    by (rule in_ends_AltE) (erule "4.IH")+
next
  case (5 r st)
  from "5.prems" show ?case
  proof (cases rule: in_ends_StarE)
    case 1
    then show ?thesis by simp
  next
    case (2 st1)
    from 2(1) have a: "st1 \<in> set (ends r st)" by simp
    from "5.IH"(1)[OF a] obtain m1 where m1: "snd st = m1 @ snd st1" "fst st1 = rev m1 @ fst st" by blast
    from "5.IH"(2)[OF 2(1) 2(2)] obtain m2 where m2: "snd st1 = m2 @ snd st'" "fst st' = rev m2 @ fst st1" by blast
    from m1 m2 have "snd st = (m1 @ m2) @ snd st' \<and> fst st' = rev (m1 @ m2) @ fst st" by simp
    then show ?thesis by blast
  qed
next
  case (6 b a)
  from "6.prems" show ?case by (auto split: if_splits)
next
  case (7 b a)
  from "7.prems" show ?case by (auto split: list.splits if_splits)
next
  case (8 r st)
  from "8.prems" show ?case by (auto split: if_splits)
qed

lemma ends_minlen:
  "st' \<in> set (ends r st) \<Longrightarrow> length (snd st') + minlen r \<le> length (snd st)"
proof (induction r st arbitrary: st' rule: ends.induct)
  case (1 s b a)
  from "1.prems" show ?case by (auto simp: prefix_def split: if_splits)
next
  case (2 P b a)
  from "2.prems" show ?case by (auto split: list.splits if_splits)
next
  case (3 r s st)
  from "3.prems" obtain st1 where a: "st1 \<in> set (ends r st)" and b: "st' \<in> set (ends s st1)"
    by (rule in_ends_SeqE)
  from "3.IH"(1)[OF a] "3.IH"(2)[OF a b] show ?case by simp
next
  case (4 r s st)
  from "4.prems" show ?case
  proof (cases rule: in_ends_AltE)
    case 1
    from "4.IH"(1)[OF 1] show ?thesis by simp
  next
    case 2
    from "4.IH"(2)[OF 2] show ?thesis by simp
  qed
next
  case (5 r st)
  from "5.prems" show ?case
  proof (cases rule: in_ends_StarE)
    case 1
    then show ?thesis by simp
  next
    case (2 st1)
    from 2(1) have l: "length (snd st1) < length (snd st)" by simp
    from "5.IH"(2)[OF 2(1) 2(2)] l show ?thesis by simp
  qed
next
  case (6 b a)
  from "6.prems" show ?case by (auto split: if_splits)
next
  case (7 b a)
  from "7.prems" show ?case by (auto split: list.splits if_splits)
next
  case (8 r st)
  from "8.prems" show ?case by (auto split: if_splits)
qed

lemma first_match_Some:
  "first_match rules st = Some (k, ns, st') \<Longrightarrow>
     \<exists>rex. (rex, k, ns) \<in> set rules \<and> st' \<in> set (ends rex st)"
proof (induction rules)
  case Nil
  then show ?case by simp
next
  case (Cons r rules)
  obtain rex' k' ns' where r: "r = (rex', k', ns')" by (cases r) auto
  show ?case
  proof (cases "ends rex' st")
    case Nil
    with Cons r show ?thesis by auto
  next
    case (Cons m ms)
    with Cons.prems r have "k = k'" "ns = ns'" "st' = m" by simp_all
    with Cons r show ?thesis by auto
  qed
qed

lemma minlen_keywords: "minlen KEYWORDS_REGEX = 2"
  by code_simp

lemma minlen_constants: "minlen CONSTANTS_LANGUAGE_REGEX = 2"
  by code_simp

lemma minlen_numeric: "minlen CONSTANTS_NUMERIC_REGEX = 1"
  by code_simp

lemma minlen_types: "minlen TYPES_REGEX = 1"
  by code_simp

lemma minlen_variables: "minlen VARIABLES_REGEX = 1"
  by code_simp

lemma minlen_function: "minlen FUNCTION_NAME_REGEX = 1"
  by code_simp

lemma rules_consume_all: "list_all (\<lambda>(rex, k, ns). 1 \<le> minlen rex) (tokens s)"
  by (cases s)
     (simp_all add: minlen_keywords minlen_constants minlen_numeric minlen_types minlen_variables
        minlen_function Plus_def)

lemma rules_consume: "(rex, k, ns) \<in> set (tokens s) \<Longrightarrow> 1 \<le> minlen rex"
  using rules_consume_all[of s] unfolding list_all_iff by blast

lemma first_match_progress:
  assumes "first_match (tokens s) (b, a) = Some (k, ns, (b', a'))"
  shows "\<exists>m. m \<noteq> [] \<and> a = m @ a' \<and> b' = rev m @ b"
proof -
  from assms obtain rex where r: "(rex, k, ns) \<in> set (tokens s)" and e: "(b', a') \<in> set (ends rex (b, a))"
    by (auto dest: first_match_Some)
  from ends_split[OF e] obtain m where m: "a = m @ a'" "b' = rev m @ b" by auto
  from ends_minlen[OF e] rules_consume[OF r] have "length a' < length a" by simp
  with m have "m \<noteq> []" by auto
  with m show ?thesis by blast
qed

lemma next_stack_nonempty:
  assumes "stack \<noteq> []"
  shows "next_stack ns stack \<noteq> []"
proof (cases ns)
  case None
  with assms show ?thesis by simp
next
  case (Some x)
  with assms show ?thesis
    by (cases x; cases stack; cases "tl stack") auto
qed

lemma scan_total:
  "length a < n \<Longrightarrow> stack \<noteq> [] \<Longrightarrow> \<exists>toks. scan n stack (b, a) = Some toks"
proof (induction n arbitrary: stack b a)
  case 0
  then show ?case by simp
next
  case (Suc n)
  then obtain s ss where st: "stack = s # ss" by (cases stack) auto
  show ?case
  proof (cases "first_match (tokens s) (b, a)")
    case None
    show ?thesis
    proof (cases a)
      case Nil
      with None st show ?thesis by simp
    next
      case (Cons c cs)
      with Suc.prems have l: "length cs < n" by simp
      from Suc.IH[OF l, of "[root]" "c # b"] Suc.IH[OF l, of "s # ss" "c # b"]
      show ?thesis using None st Cons by auto
    qed
  next
    case (Some r)
    then obtain k ns b' a' where r: "first_match (tokens s) (b, a) = Some (k, ns, (b', a'))"
      by (cases r) auto
    from first_match_progress[OF r] obtain m where "m \<noteq> []" "a = m @ a'" by blast
    then have "length a' < length a" by (cases m) auto
    with Suc.prems have l: "length a' < n" by simp
    have "next_stack ns (s # ss) \<noteq> []" by (rule next_stack_nonempty) simp
    from Suc.IH[OF l this, of b'] show ?thesis using r st by auto
  qed
qed

lemma scan_tiles:
  "scan n stack (b, a) = Some toks \<Longrightarrow> concat (token_texts toks) = a \<and> contiguous (length b) toks"
proof (induction n arbitrary: stack b a toks)
  case 0
  then show ?case by simp
next
  case (Suc n)
  then obtain s ss where st: "stack = s # ss" by (cases stack) auto
  show ?case
  proof (cases "first_match (tokens s) (b, a)")
    case None
    show ?thesis
    proof (cases a)
      case Nil
      with None st Suc.prems show ?thesis by (simp add: token_texts_def)
    next
      case (Cons c cs)
      show ?thesis
      proof (cases "c = CHR 0x0A")
        case True
        with None st Cons Suc.prems obtain toks' where
          t: "scan n [root] (c # b, cs) = Some toks'" "toks = (length b, Whitespace, [c]) # toks'"
          by auto
        from Suc.IH[OF t(1)] t(2) Cons show ?thesis by (simp add: token_texts_def)
      next
        case False
        with None st Cons Suc.prems obtain toks' where
          t: "scan n (s # ss) (c # b, cs) = Some toks'" "toks = (length b, Error, [c]) # toks'"
          by auto
        from Suc.IH[OF t(1)] t(2) Cons show ?thesis by (simp add: token_texts_def)
      qed
    qed
  next
    case (Some r)
    then obtain k ns b' a' where r: "first_match (tokens s) (b, a) = Some (k, ns, (b', a'))"
      by (cases r) auto
    from first_match_progress[OF r] obtain m where m: "m \<noteq> []" "a = m @ a'" "b' = rev m @ b" by blast
    from r st Suc.prems obtain toks' where
      t: "scan n (next_stack ns (s # ss)) (b', a') = Some toks'"
         "toks = (length b, k, take (length a - length a') a) # toks'"
      by auto
    from m have tk: "take (length a - length a') a = m" by simp
    from Suc.IH[OF t(1)] t(2) m tk show ?thesis by (simp add: token_texts_def add.commute)
  qed
qed

subsection \<open>Once the module has loaded, the tokens tile the input\<close>

lemma tokens_tile_once_loaded:
  assumes "lexer_module lib = Inr ()"
  shows "\<exists>toks. BosqueLexer_get_tokens_unprocessed lib text = Inr (Some toks)
           \<and> concat (token_texts toks) = text \<and> contiguous 0 toks"
proof -
  have "\<exists>toks. scan (Suc (length text)) [root] ([], text) = Some toks"
    by (rule scan_total) simp_all
  then obtain toks where sc: "scan (Suc (length text)) [root] ([], text) = Some toks" ..
  then have "get_tokens_unprocessed text = Some toks"
    unfolding get_tokens_unprocessed_def .
  with assms have "BosqueLexer_get_tokens_unprocessed lib text = Inr (Some toks)"
    by (simp add: BosqueLexer_get_tokens_unprocessed_def)
  with scan_tiles[OF sc] show ?thesis by simp
qed

subsection \<open>Where a token comes from\<close>

lemma scan_token_origin:
  "scan n stack (b, a) = Some toks \<Longrightarrow> (p, k, v) \<in> set toks \<Longrightarrow>
     (\<exists>s b1 a1 ns b2 a2. rev b1 @ a1 = rev b @ a \<and> length b1 = p \<and>
        first_match (tokens s) (b1, a1) = Some (k, ns, (b2, a2)) \<and> a1 = v @ a2)
     \<or> k = Error \<or> k = Whitespace"
proof (induction n arbitrary: stack b a toks)
  case 0
  then show ?case by simp
next
  case (Suc n)
  then obtain s ss where st: "stack = s # ss" by (cases stack) auto
  show ?case
  proof (cases "first_match (tokens s) (b, a)")
    case None
    show ?thesis
    proof (cases a)
      case Nil
      with None st Suc.prems show ?thesis by simp
    next
      case (Cons c cs)
      show ?thesis
      proof (cases "c = CHR 0x0A")
        case True
        with None st Cons Suc.prems(1) obtain toks' where
          t: "scan n [root] (c # b, cs) = Some toks'" "toks = (length b, Whitespace, [c]) # toks'"
          by auto
        from t(2) Suc.prems(2) consider "k = Whitespace" | "(p, k, v) \<in> set toks'" by auto
        then show ?thesis
        proof cases
          case 1
          then show ?thesis by simp
        next
          case 2
          from Suc.IH[OF t(1) 2] Cons show ?thesis by simp
        qed
      next
        case False
        with None st Cons Suc.prems(1) obtain toks' where
          t: "scan n (s # ss) (c # b, cs) = Some toks'" "toks = (length b, Error, [c]) # toks'"
          by auto
        from t(2) Suc.prems(2) consider "k = Error" | "(p, k, v) \<in> set toks'" by auto
        then show ?thesis
        proof cases
          case 1
          then show ?thesis by simp
        next
          case 2
          from Suc.IH[OF t(1) 2] Cons show ?thesis by simp
        qed
      qed
    qed
  next
    case (Some r)
    then obtain k' ns b' a' where r: "first_match (tokens s) (b, a) = Some (k', ns, (b', a'))"
      by (cases r) auto
    from first_match_progress[OF r] obtain m where m: "m \<noteq> []" "a = m @ a'" "b' = rev m @ b" by blast
    from r st Suc.prems(1) obtain toks' where
      t: "scan n (next_stack ns (s # ss)) (b', a') = Some toks'"
         "toks = (length b, k', take (length a - length a') a) # toks'"
      by auto
    from m have tk: "take (length a - length a') a = m" by simp
    from t(2) Suc.prems(2) tk consider "p = length b" "k = k'" "v = m" | "(p, k, v) \<in> set toks'" by auto
    then show ?thesis
    proof cases
      case 1
      with r m have "rev b @ a = rev b @ a \<and> length b = p \<and>
        first_match (tokens s) (b, a) = Some (k, ns, (b', a')) \<and> a = v @ a'" by simp
      then show ?thesis by blast
    next
      case 2
      from Suc.IH[OF t(1) 2] m show ?thesis by simp
    qed
  qed
qed

lemma ends_alts_Lit:
  "st' \<in> set (ends (alts (map Lit ws)) (b, a)) \<Longrightarrow> \<exists>w\<in>set ws. a = w @ snd st' \<and> fst st' = rev w @ b"
proof (induction ws)
  case Nil
  then show ?case by (auto split: list.splits)
next
  case (Cons w ws)
  show ?case
  proof (cases ws)
    case Nil
    with Cons.prems show ?thesis by (auto simp: prefix_def split: if_splits)
  next
    case (Cons w' ws')
    with Cons.prems have "st' \<in> set (ends (Lit w) (b, a)) \<or> st' \<in> set (ends (alts (map Lit ws)) (b, a))"
      by simp
    then show ?thesis
    proof
      assume "st' \<in> set (ends (Lit w) (b, a))"
      then show ?thesis by (auto simp: prefix_def split: if_splits)
    next
      assume "st' \<in> set (ends (alts (map Lit ws)) (b, a))"
      from Cons.IH[OF this] show ?thesis by auto
    qed
  qed
qed

lemma ends_word_delimited:
  assumes "st' \<in> set (ends (seqs [WordB, alts (map Lit ws), WordB]) (b, a))"
  shows "\<exists>w\<in>set ws. a = w @ snd st' \<and> fst st' = rev w @ b \<and> word_before b \<noteq> word_before a
           \<and> word_before (rev w @ b) \<noteq> word_before (snd st')"
proof -
  from assms have "st' \<in> set (ends (Seq WordB (Seq (alts (map Lit ws)) WordB)) (b, a))" by simp
  then obtain st1 where s1: "st1 \<in> set (ends WordB (b, a))"
    and r: "st' \<in> set (ends (Seq (alts (map Lit ws)) WordB) st1)"
    by (rule in_ends_SeqE)
  from s1 have st1: "st1 = (b, a)" and wb: "word_before b \<noteq> word_before a"
    by (auto split: if_splits)
  from r obtain st2 where s2: "st2 \<in> set (ends (alts (map Lit ws)) st1)"
    and e: "st' \<in> set (ends WordB st2)"
    by (rule in_ends_SeqE)
  from e have st2: "st' = st2" and we: "word_before (fst st2) \<noteq> word_before (snd st2)"
    by (cases st2; auto split: if_splits)+
  from s2 st1 obtain w where w: "w \<in> set ws" "a = w @ snd st2" "fst st2 = rev w @ b"
    by (auto dest: ends_alts_Lit)
  with st2 we wb show ?thesis by auto
qed

lemma keywords_are_words: "list_all (\<lambda>w. w \<noteq> [] \<and> list_all is_word w) KEYWORDS"
  by code_simp

lemma constants_are_words: "list_all (\<lambda>w. w \<noteq> [] \<and> list_all is_word w) CONSTANTS_LANGUAGE"
  by code_simp

lemma word_delimited:
  assumes w: "w \<noteq> []" "list_all is_word w"
    and wb: "word_before b \<noteq> word_before (w @ a')"
    and we: "word_before (rev w @ b) \<noteq> word_before a'"
  shows "(rev b = [] \<or> \<not> is_word (last (rev b))) \<and> (a' = [] \<or> \<not> is_word (hd a'))"
proof -
  from w obtain c cs where c: "w = c # cs" "is_word c" by (cases w) auto
  from w obtain d ds where d: "rev w = d # ds" "is_word d"
    by (cases "rev w") (auto simp: list_all_iff dest: arg_cong[where f=set])
  from wb c have "\<not> word_before b" by simp
  moreover from we d have "\<not> word_before a'" by simp
  ultimately show ?thesis
    by (cases b; cases a') auto
qed

lemma keyword_rule: "(rex, Keyword, ns) \<in> set (tokens s) \<Longrightarrow> rex = KEYWORDS_REGEX"
  by (cases s) auto

lemma constant_rule: "(rex, Constant_Language, ns) \<in> set (tokens s) \<Longrightarrow> rex = CONSTANTS_LANGUAGE_REGEX"
  by (cases s) auto



subsection \<open>Once the module has loaded, keywords and constants are whole words\<close>

text \<open>
  What the table is written to do. Where the module loads, a token of type \<open>Keyword\<close> (or
  \<open>Constant_Language\<close>) has the text of a keyword (or constant) of the table, and in the
  input it is neither preceded nor followed by a word character; \<^verbatim>\<open>iffy\<close> is one
  \<open>Name_Variable\<close> token, and \<^verbatim>\<open>42\<close> and \<^verbatim>\<open>42i\<close> are one \<open>Constant_Numeric\<close> token each.
\<close>

lemma keywords_word_delimited_once_loaded:
  assumes loaded: "lexer_module lib = Inr ()"
  shows "(BosqueLexer_get_tokens_unprocessed lib text = Inr (Some toks) \<and> (p, k, v) \<in> set toks \<and>
      (k = Keyword \<or> k = Constant_Language) \<longrightarrow>
      v \<in> set (if k = Keyword then KEYWORDS else CONSTANTS_LANGUAGE)
      \<and> (\<exists>pre post. text = pre @ v @ post \<and> length pre = p
            \<and> (pre = [] \<or> \<not> is_word (last pre)) \<and> (post = [] \<or> \<not> is_word (hd post))))
   \<and> BosqueLexer_get_tokens_unprocessed lib ''iffy'' = Inr (Some [(0, Name_Variable, ''iffy'')])
   \<and> BosqueLexer_get_tokens_unprocessed lib ''42'' = Inr (Some [(0, Constant_Numeric, ''42'')])
   \<and> BosqueLexer_get_tokens_unprocessed lib ''42i'' = Inr (Some [(0, Constant_Numeric, ''42i'')])"
proof (intro conjI)
  show "BosqueLexer_get_tokens_unprocessed lib text = Inr (Some toks) \<and> (p, k, v) \<in> set toks \<and>
      (k = Keyword \<or> k = Constant_Language) \<longrightarrow>
      v \<in> set (if k = Keyword then KEYWORDS else CONSTANTS_LANGUAGE)
      \<and> (\<exists>pre post. text = pre @ v @ post \<and> length pre = p
            \<and> (pre = [] \<or> \<not> is_word (last pre)) \<and> (post = [] \<or> \<not> is_word (hd post)))"
  proof
  assume a0: "BosqueLexer_get_tokens_unprocessed lib text = Inr (Some toks) \<and> (p, k, v) \<in> set toks \<and>
      (k = Keyword \<or> k = Constant_Language)"
  with loaded have a: "get_tokens_unprocessed text = Some toks \<and> (p, k, v) \<in> set toks \<and>
      (k = Keyword \<or> k = Constant_Language)"
    by (simp add: BosqueLexer_get_tokens_unprocessed_def)
  define ws where "ws = (if k = Keyword then KEYWORDS else CONSTANTS_LANGUAGE)"
  from a have sc: "scan (Suc (length text)) [root] ([], text) = Some toks" and el: "(p, k, v) \<in> set toks"
    and k: "k = Keyword \<or> k = Constant_Language"
    unfolding get_tokens_unprocessed_def by blast+
  from scan_token_origin[OF sc el] k obtain s b1 a1 ns b2 a2 where
    o: "rev b1 @ a1 = text" "length b1 = p" "first_match (tokens s) (b1, a1) = Some (k, ns, (b2, a2))"
       "a1 = v @ a2"
    by auto
  from first_match_Some[OF o(3)] obtain rex where
    r: "(rex, k, ns) \<in> set (tokens s)" "(b2, a2) \<in> set (ends rex (b1, a1))" by blast
  from r(1) k have "rex = seqs [WordB, alts (map Lit ws), WordB]"
    by (auto simp: ws_def dest: keyword_rule constant_rule
          simp: KEYWORDS_REGEX_def CONSTANTS_LANGUAGE_REGEX_def)
  with r(2) have "\<exists>w\<in>set ws. a1 = w @ snd (b2, a2) \<and> fst (b2, a2) = rev w @ b1
        \<and> word_before b1 \<noteq> word_before a1 \<and> word_before (rev w @ b1) \<noteq> word_before (snd (b2, a2))"
    by (simp only: ends_word_delimited)
  then obtain w where w: "w \<in> set ws" "a1 = w @ a2" "word_before b1 \<noteq> word_before (w @ a2)"
      "word_before (rev w @ b1) \<noteq> word_before a2"
    by auto
  from w(2) o(4) have vw: "v = w" by simp
  from w(1) keywords_are_words constants_are_words have ww: "w \<noteq> []" "list_all is_word w"
    by (auto simp: ws_def list_all_iff split: if_splits)
  from word_delimited[OF ww w(3) w(4)]
  have d: "(rev b1 = [] \<or> \<not> is_word (last (rev b1))) \<and> (a2 = [] \<or> \<not> is_word (hd a2))" .
  from o(1) o(4) have "text = rev b1 @ v @ a2" by simp
  with o(2) d have "\<exists>pre post. text = pre @ v @ post \<and> length pre = p
            \<and> (pre = [] \<or> \<not> is_word (last pre)) \<and> (post = [] \<or> \<not> is_word (hd post))"
    by (intro exI[of _ "rev b1"] exI[of _ a2]) simp
  with w(1) vw show "v \<in> set (if k = Keyword then KEYWORDS else CONSTANTS_LANGUAGE)
      \<and> (\<exists>pre post. text = pre @ v @ post \<and> length pre = p
            \<and> (pre = [] \<or> \<not> is_word (last pre)) \<and> (post = [] \<or> \<not> is_word (hd post)))"
    by (simp add: ws_def)
  qed
next
  have "get_tokens_unprocessed ''iffy'' = Some [(0, Name_Variable, ''iffy'')]" by code_simp
  with loaded show "BosqueLexer_get_tokens_unprocessed lib ''iffy'' = Inr (Some [(0, Name_Variable, ''iffy'')])"
    by (simp add: BosqueLexer_get_tokens_unprocessed_def)
next
  have "get_tokens_unprocessed ''42'' = Some [(0, Constant_Numeric, ''42'')]" by code_simp
  with loaded show "BosqueLexer_get_tokens_unprocessed lib ''42'' = Inr (Some [(0, Constant_Numeric, ''42'')])"
    by (simp add: BosqueLexer_get_tokens_unprocessed_def)
next
  have "get_tokens_unprocessed ''42i'' = Some [(0, Constant_Numeric, ''42i'')]" by code_simp
  with loaded show "BosqueLexer_get_tokens_unprocessed lib ''42i'' = Inr (Some [(0, Constant_Numeric, ''42i'')])"
    by (simp add: BosqueLexer_get_tokens_unprocessed_def)
qed

subsection \<open>The rule for function names never fires\<close>

lemma in_ends_SeqI:
  "st1 \<in> set (ends r st) \<Longrightarrow> st2 \<in> set (ends s st1) \<Longrightarrow> st2 \<in> set (ends (Seq r s) st)"
  by auto

lemma in_ends_AltI2: "st' \<in> set (ends s st) \<Longrightarrow> st' \<in> set (ends (Alt r s) st)"
  by simp

lemma in_ends_Star_refl: "st \<in> set (ends (Star r) st)"
  by (subst ends.simps(5)) simp

lemma in_ends_Star_ClsI:
  "list_all P m \<Longrightarrow> (rev m @ b, a') \<in> set (ends (Star (Cls P)) (b, m @ a'))"
proof (induction m arbitrary: b)
  case Nil
  show ?case by (simp add: in_ends_Star_refl)
next
  case (Cons c m)
  then have "(rev m @ c # b, a') \<in> set (ends (Star (Cls P)) (c # b, m @ a'))" by simp
  with Cons.prems show ?case by (subst ends.simps(5)) simp
qed

lemma in_ends_Plus_ClsI:
  assumes "m \<noteq> []" "list_all P m"
  shows "(rev m @ b, a') \<in> set (ends (Plus (Cls P)) (b, m @ a'))"
proof -
  from assms obtain c cs where m: "m = c # cs" "P c" "list_all P cs" by (cases m) auto
  have "(c # b, cs @ a') \<in> set (ends (Cls P) (b, m @ a'))" using m by simp
  moreover have "(rev cs @ c # b, a') \<in> set (ends (Star (Cls P)) (c # b, cs @ a'))"
    using m(3) by (rule in_ends_Star_ClsI)
  ultimately have "(rev cs @ c # b, a') \<in> set (ends (Seq (Cls P) (Star (Cls P))) (b, m @ a'))"
    by (rule in_ends_SeqI)
  with m show ?thesis by (simp add: Plus_def)
qed

lemma in_ends_Star_ClsE:
  "st' \<in> set (ends (Star (Cls P)) (b, a)) \<Longrightarrow>
     \<exists>m. a = m @ snd st' \<and> fst st' = rev m @ b \<and> list_all P m"
proof (induction a arbitrary: b)
  case Nil
  from Nil.prems show ?case by (subst (asm) ends.simps(5)) auto
next
  case (Cons c cs)
  from Cons.prems show ?case
  proof (cases rule: in_ends_StarE)
    case 1
    then show ?thesis by simp
  next
    case (2 st1)
    from 2(1) have st1: "st1 = (c # b, cs)" and c: "P c" by (auto split: if_splits)
    from 2(2) st1 have "st' \<in> set (ends (Star (Cls P)) (c # b, cs))" by simp
    from Cons.IH[OF this] obtain m where "cs = m @ snd st'" "fst st' = rev m @ c # b" "list_all P m"
      by blast
    with c have "c # cs = (c # m) @ snd st' \<and> fst st' = rev (c # m) @ b \<and> list_all P (c # m)" by simp
    then show ?thesis by blast
  qed
qed

lemma upper_is_word: "upper c \<Longrightarrow> is_word c"
  by (simp add: upper_def is_word_def)

lemma lower_us_is_word: "lower_us c \<Longrightarrow> is_word c"
  by (auto simp: lower_us_def is_word_def)

lemma ident_char_is_word: "ident_char c \<Longrightarrow> is_word c"
  by (auto simp: ident_char_def is_word_def)

lemma alpha_us_cases: "alpha_us c \<Longrightarrow> upper c \<or> lower_us c"
  by (auto simp: alpha_us_def upper_def lower_us_def)

lemma isspace_not_word: "isspace c \<Longrightarrow> \<not> is_word c"
  by (auto simp: isspace_def is_word_def in_range_def)

lemma paren_not_word: "\<not> is_word (CHR 0x28)"
  by (simp add: is_word_def in_range_def)


lemma function_name_shape:
  assumes "ends FUNCTION_NAME_REGEX (b, a) \<noteq> []"
  shows "\<exists>c m d rest. a = c # m @ d # rest \<and> alpha_us c \<and> list_all ident_char m
           \<and> word_before b \<noteq> word_before a \<and> (isspace d \<or> d = CHR 0x28)"
proof -
  from assms obtain st' where "st' \<in> set (ends FUNCTION_NAME_REGEX (b, a))"
    by (cases "ends FUNCTION_NAME_REGEX (b, a)") auto
  then have "st' \<in> set (ends (Seq WordB (Seq (Seq (Cls alpha_us) (Star (Cls ident_char)))
      (Seq (Star (Cls isspace)) (Look (Lit [CHR 0x28]))))) (b, a))"
    by (simp add: FUNCTION_NAME_REGEX_def)
  then obtain st1 where s1: "st1 \<in> set (ends WordB (b, a))"
    and r1: "st' \<in> set (ends (Seq (Seq (Cls alpha_us) (Star (Cls ident_char)))
      (Seq (Star (Cls isspace)) (Look (Lit [CHR 0x28])))) st1)"
    by (rule in_ends_SeqE)
  from s1 have st1: "st1 = (b, a)" and wb: "word_before b \<noteq> word_before a"
    by (auto split: if_splits)
  from r1 obtain st2 where s2: "st2 \<in> set (ends (Seq (Cls alpha_us) (Star (Cls ident_char))) st1)"
    and r2: "st' \<in> set (ends (Seq (Star (Cls isspace)) (Look (Lit [CHR 0x28]))) st2)"
    by (rule in_ends_SeqE)
  from s2 obtain st3 where s3: "st3 \<in> set (ends (Cls alpha_us) st1)"
    and r3: "st2 \<in> set (ends (Star (Cls ident_char)) st3)"
    by (rule in_ends_SeqE)
  from s3 st1 obtain c cs where c: "a = c # cs" "alpha_us c" "st3 = (c # b, cs)"
    by (auto split: list.splits if_splits)
  from r3 c(3) obtain m where m: "cs = m @ snd st2" "list_all ident_char m"
    by (auto dest: in_ends_Star_ClsE)
  from r2 obtain st4 where s4: "st4 \<in> set (ends (Star (Cls isspace)) st2)"
    and r4: "st' \<in> set (ends (Look (Lit [CHR 0x28])) st4)"
    by (rule in_ends_SeqE)
  from s4 obtain sp where sp: "snd st2 = sp @ snd st4" "list_all isspace sp"
    by (cases st2) (auto dest: in_ends_Star_ClsE)
  from r4 have "ends (Lit [CHR 0x28]) st4 \<noteq> []" by (auto split: if_splits)
  then obtain r where r: "snd st4 = CHR 0x28 # r"
    by (cases st4) (auto simp: prefix_def split: if_splits)
  from sp r obtain d rest where d: "snd st2 = d # rest" "isspace d \<or> d = CHR 0x28"
    by (cases sp) auto
  from c m d wb have "a = c # m @ d # rest \<and> alpha_us c \<and> list_all ident_char m
      \<and> word_before b \<noteq> word_before a \<and> (isspace d \<or> d = CHR 0x28)" by simp
  then show ?thesis by blast
qed

lemma word_end_boundary:
  assumes "is_word c" "list_all ident_char m" "isspace d \<or> d = CHR 0x28"
  shows "word_before (rev m @ c # b) \<noteq> word_before (d # rest)"
proof -
  have "word_before (rev m @ c # b)"
    using assms(1,2) by (cases "rev m") (auto simp: list_all_iff ident_char_is_word dest: arg_cong[where f=set])
  moreover have "\<not> word_before (d # rest)"
    using assms(3) by (auto simp: isspace_not_word paren_not_word)
  ultimately show ?thesis by simp
qed

lemma types_match:
  assumes a: "a = c # m @ d # rest" and c: "upper c" and m: "list_all ident_char m"
    and wb: "word_before b \<noteq> word_before a" and d: "isspace d \<or> d = CHR 0x28"
  shows "ends TYPES_REGEX (b, a) \<noteq> []"
proof -
  have w0: "(b, a) \<in> set (ends WordB (b, a))" using wb by simp
  have we: "(rev m @ c # b, d # rest) \<in> set (ends WordB (rev m @ c # b, d # rest))"
    using word_end_boundary[OF upper_is_word[OF c] m d] by simp
  have cu: "(c # b, m @ d # rest) \<in> set (ends (Cls upper) (b, a))" using a c by simp
  have "(rev m @ c # b, d # rest) \<in> set (ends TYPES_REGEX (b, a))"
  proof (cases "m = []")
    case True
    from cu we True have "(rev m @ c # b, d # rest) \<in> set (ends (Seq (Cls upper) WordB) (b, a))"
      by (auto intro: in_ends_SeqI)
    with w0 have "(rev m @ c # b, d # rest) \<in> set (ends (Seq WordB (Seq (Cls upper) WordB)) (b, a))"
      by (rule in_ends_SeqI)
    then show ?thesis by (simp add: TYPES_REGEX_def)
  next
    case False
    have "(rev m @ c # b, d # rest) \<in> set (ends (Plus (Cls ident_char)) (c # b, m @ d # rest))"
      using False m by (rule in_ends_Plus_ClsI)
    with cu have "(rev m @ c # b, d # rest) \<in> set (ends (Seq (Cls upper) (Plus (Cls ident_char))) (b, a))"
      by (rule in_ends_SeqI)
    with in_ends_Star_refl
    have "(rev m @ c # b, d # rest) \<in> set (ends (Seq (Star (Seq (Seq (Cls upper) (Plus (Cls ident_char))) (Lit ''::'')))
         (Seq (Cls upper) (Plus (Cls ident_char)))) (b, a))"
      by (rule in_ends_SeqI)
    from this we
    have "(rev m @ c # b, d # rest) \<in> set (ends (Seq (Seq (Star (Seq (Seq (Cls upper) (Plus (Cls ident_char))) (Lit ''::'')))
         (Seq (Cls upper) (Plus (Cls ident_char)))) WordB) (b, a))"
      by (rule in_ends_SeqI)
    with w0
    have "(rev m @ c # b, d # rest) \<in> set (ends (Seq WordB (Seq (Seq (Star (Seq (Seq (Cls upper) (Plus (Cls ident_char))) (Lit ''::'')))
         (Seq (Cls upper) (Plus (Cls ident_char)))) WordB)) (b, a))"
      by (rule in_ends_SeqI)
    then show ?thesis by (simp add: TYPES_REGEX_def)
  qed
  then show ?thesis by auto
qed

lemma variables_match:
  assumes a: "a = c # m @ d # rest" and c: "lower_us c" and m: "list_all ident_char m"
    and wb: "word_before b \<noteq> word_before a" and d: "isspace d \<or> d = CHR 0x28"
  shows "ends VARIABLES_REGEX (b, a) \<noteq> []"
proof -
  have w0: "(b, a) \<in> set (ends WordB (b, a))" using wb by simp
  have we: "(rev m @ c # b, d # rest) \<in> set (ends WordB (rev m @ c # b, d # rest))"
    using word_end_boundary[OF lower_us_is_word[OF c] m d] by simp
  have cu: "(c # b, m @ d # rest) \<in> set (ends (Cls lower_us) (b, a))" using a c by simp
  have name: "(rev m @ c # b, d # rest) \<in>
      set (ends (Alt (Cls lower_us) (Seq (Cls lower_us) (Plus (Cls ident_char)))) (b, a))"
  proof (cases "m = []")
    case True
    with cu show ?thesis by simp
  next
    case False
    have "(rev m @ c # b, d # rest) \<in> set (ends (Plus (Cls ident_char)) (c # b, m @ d # rest))"
      using False m by (rule in_ends_Plus_ClsI)
    with cu have "(rev m @ c # b, d # rest) \<in> set (ends (Seq (Cls lower_us) (Plus (Cls ident_char))) (b, a))"
      by (rule in_ends_SeqI)
    then show ?thesis by (rule in_ends_AltI2)
  qed
  have "(b, a) \<in> set (ends (Opt (Cls (one_of ''$''))) (b, a))"
    by (simp add: Opt_def)
  from this name
  have "(rev m @ c # b, d # rest) \<in> set (ends (Seq (Opt (Cls (one_of ''$'')))
      (Alt (Cls lower_us) (Seq (Cls lower_us) (Plus (Cls ident_char))))) (b, a))"
    by (rule in_ends_SeqI)
  then have "(rev m @ c # b, d # rest) \<in> set (ends (Alt (Cls (one_of ''$'')) (Seq (Opt (Cls (one_of ''$'')))
      (Alt (Cls lower_us) (Seq (Cls lower_us) (Plus (Cls ident_char)))))) (b, a))"
    by (rule in_ends_AltI2)
  from this we
  have "(rev m @ c # b, d # rest) \<in> set (ends (Seq (Alt (Cls (one_of ''$'')) (Seq (Opt (Cls (one_of ''$'')))
      (Alt (Cls lower_us) (Seq (Cls lower_us) (Plus (Cls ident_char)))))) WordB) (b, a))"
    by (rule in_ends_SeqI)
  with w0
  have "(rev m @ c # b, d # rest) \<in> set (ends (Seq WordB (Seq (Alt (Cls (one_of ''$'')) (Seq (Opt (Cls (one_of ''$'')))
      (Alt (Cls lower_us) (Seq (Cls lower_us) (Plus (Cls ident_char)))))) WordB)) (b, a))"
    by (rule in_ends_SeqI)
  then have "(rev m @ c # b, d # rest) \<in> set (ends VARIABLES_REGEX (b, a))"
    by (simp add: VARIABLES_REGEX_def)
  then show ?thesis by auto
qed

lemma function_name_shadowed:
  assumes "ends FUNCTION_NAME_REGEX st \<noteq> []"
  shows "ends TYPES_REGEX st \<noteq> [] \<or> ends VARIABLES_REGEX st \<noteq> []"
proof -
  obtain b a where st: "st = (b, a)" by (cases st)
  from assms st have "ends FUNCTION_NAME_REGEX (b, a) \<noteq> []" by simp
  from function_name_shape[OF this]
  obtain c m d rest where s: "a = c # m @ d # rest" "alpha_us c" "list_all ident_char m"
      "word_before b \<noteq> word_before a" "isspace d \<or> d = CHR 0x28"
    by blast
  from alpha_us_cases[OF s(2)] show ?thesis
  proof
    assume "upper c"
    from types_match[OF s(1) this s(3) s(4) s(5)] st show ?thesis by simp
  next
    assume "lower_us c"
    from variables_match[OF s(1) this s(3) s(4) s(5)] st show ?thesis by simp
  qed
qed


lemma first_match_append:
  "first_match (xs @ ys) st = (case first_match xs st of Some r \<Rightarrow> Some r | None \<Rightarrow> first_match ys st)"
proof (induction xs)
  case Nil
  show ?case by simp
next
  case (Cons x xs)
  obtain rex k ns where x: "x = (rex, k, ns)" by (cases x)
  show ?case using Cons x by (cases "ends rex st") simp_all
qed

lemma first_match_None:
  "first_match xs st = None \<Longrightarrow> (rex, k, ns) \<in> set xs \<Longrightarrow> ends rex st = []"
proof (induction xs)
  case Nil
  then show ?case by simp
next
  case (Cons x xs)
  obtain rex' k' ns' where x: "x = (rex', k', ns')" by (cases x)
  from Cons.prems(1) x have e: "ends rex' st = []" and r: "first_match xs st = None"
    by (cases "ends rex' st"; simp)+
  from Cons.prems(2) x consider "rex = rex'" | "(rex, k, ns) \<in> set xs" by auto
  then show ?case
  proof cases
    case 1
    with e show ?thesis by simp
  next
    case 2
    from Cons.IH[OF r 2] show ?thesis .
  qed
qed

lemma first_match_not_function:
  assumes "first_match (tokens s) st = Some (k, ns, st')"
  shows "k \<noteq> Name_Function"
proof (cases "s = root")
  case False
  from first_match_Some[OF assms] obtain rex where "(rex, k, ns) \<in> set (tokens s)" by blast
  with False show ?thesis by (cases s) auto
next
  case True
  define pre :: "rule list" where "pre =
     [(Plus (Cls isspace), Text, None),
      (seqs [Lit ''%%'', Star (Cls not_newline), Eol], Comment_Single, None),
      (Lit ''%**'', Comment_Multiline, Some (Push comment_multiline_double_dash)),
      (Lit ''%*'', Comment_Multiline, Some (Push comment_multiline)),
      (Lit [CHR 0x22], String_Double, Some (Push string_double)),
      (Lit [CHR 0x27], String_Single, Some (Push string_single)),
      (KEYWORDS_REGEX, Keyword, None),
      (CONSTANTS_LANGUAGE_REGEX, Constant_Language, None),
      (CONSTANTS_NUMERIC_REGEX, Constant_Numeric, None),
      (TYPES_REGEX, Name_Class, None),
      (VARIABLES_REGEX, Name_Variable, None)]"
  define post :: "rule list" where "post =
     [(Plus (Cls (one_of ''+-*/=<>!'')), Operator, None),
      (Cls (one_of ''{}()[];,''), Punctuation, None)]"
  have split: "tokens root = pre @ (FUNCTION_NAME_REGEX, Name_Function, None) # post"
    by (simp add: pre_def post_def)
  have pre_kinds: "k' \<noteq> Name_Function" if "(rex, k', ns') \<in> set pre" for rex k' ns'
    using that by (auto simp: pre_def)
  have post_kinds: "k' \<noteq> Name_Function" if "(rex, k', ns') \<in> set post" for rex k' ns'
    using that by (auto simp: post_def)
  have pre_types: "(TYPES_REGEX, Name_Class, None) \<in> set pre"
    and pre_vars: "(VARIABLES_REGEX, Name_Variable, None) \<in> set pre"
    by (simp_all add: pre_def)
  from assms True have fm: "first_match (pre @ (FUNCTION_NAME_REGEX, Name_Function, None) # post) st
      = Some (k, ns, st')"
    by (simp only: split)
  show ?thesis
  proof (cases "first_match pre st")
    case (Some r)
    with fm have "first_match pre st = Some (k, ns, st')" by (simp only: first_match_append option.case)
    from first_match_Some[OF this] obtain rex where "(rex, k, ns) \<in> set pre" by blast
    then show ?thesis by (rule pre_kinds)
  next
    case None
    from first_match_None[OF None pre_types] first_match_None[OF None pre_vars]
    have "ends TYPES_REGEX st = []" "ends VARIABLES_REGEX st = []" .
    with function_name_shadowed[of st] have f: "ends FUNCTION_NAME_REGEX st = []" by blast
    from fm None f have "first_match post st = Some (k, ns, st')"
      by (simp only: first_match_append option.case first_match.simps list.case)
    from first_match_Some[OF this] obtain rex where "(rex, k, ns) \<in> set post" by blast
    then show ?thesis by (rule post_kinds)
  qed
qed


text \<open>
  Claim C10. For every input the scan yields no token of type \<open>Name_Function\<close> (the
  specification's FunctionName): wherever the pattern for an identifier followed by an
  opening parenthesis matches, the pattern of the \<open>Name_Class\<close> rule or the pattern of the
  \<open>Name_Variable\<close> rule matches too, and both rules come earlier in the state \<open>root\<close>.
\<close>

theorem function_name_rule_unreachable:
  "(\<exists>toks. get_tokens_unprocessed text = Some toks
       \<and> list_all (\<lambda>(p, k, v). k \<noteq> Name_Function) toks)
   \<and> (ends FUNCTION_NAME_REGEX st \<noteq> [] \<longrightarrow>
        ends TYPES_REGEX st \<noteq> [] \<or> ends VARIABLES_REGEX st \<noteq> [])"
proof
  obtain toks where t: "scan (Suc (length text)) [root] ([], text) = Some toks"
    using scan_total[of "text" "Suc (length text)" "[root]" "[]"] by auto
  have "k \<noteq> Name_Function" if "(p, k, v) \<in> set toks" for p k v
    using scan_token_origin[OF t that] by (auto dest: first_match_not_function)
  then have "list_all (\<lambda>(p, k, v). k \<noteq> Name_Function) toks"
    unfolding list_all_iff by auto
  with t show "\<exists>toks. get_tokens_unprocessed text = Some toks
       \<and> list_all (\<lambda>(p, k, v). k \<noteq> Name_Function) toks"
    by (auto simp: get_tokens_unprocessed_def)
next
  show "ends FUNCTION_NAME_REGEX st \<noteq> [] \<longrightarrow>
        ends TYPES_REGEX st \<noteq> [] \<or> ends VARIABLES_REGEX st \<noteq> []"
    using function_name_shadowed by blast
qed

theorem function_name_rule_unreachable_witness:
  "(\<exists>toks. get_tokens_unprocessed ''foo(x)'' = Some toks
       \<and> list_all (\<lambda>(p, k, v). k \<noteq> Name_Function) toks)
   \<and> ends VARIABLES_REGEX ([], ''foo('') \<noteq> []"
proof -
  have h: "ends FUNCTION_NAME_REGEX ([], ''foo('') \<noteq> []"
    by code_simp
  have n: "ends TYPES_REGEX ([], ''foo('') = []"
    by code_simp
  note t = function_name_rule_unreachable[of "''foo(x)''" "([], ''foo('')"]
  from t[THEN conjunct1] t[THEN conjunct2, rule_format, OF h] n
  show ?thesis by simp
qed

subsection \<open>Literals and comments that are never closed\<close>

lemma plus_cls_matches: "P c \<Longrightarrow> ends (Plus (Cls P)) (b, c # cs) \<noteq> []"
proof -
  assume "P c"
  then have "(rev [c] @ b, cs) \<in> set (ends (Plus (Cls P)) (b, [c] @ cs))"
    by (intro in_ends_Plus_ClsI) simp_all
  then show ?thesis by auto
qed

lemma string_double_no_match:
  assumes "first_match (tokens string_double) (b, c # cs) = None"
  shows "c = CHR 0x5C"
proof -
  from first_match_None[OF assms, of "Plus (Cls (none_of [CHR 0x22, CHR 0x5C]))" String_Double None]
  have "ends (Plus (Cls (none_of [CHR 0x22, CHR 0x5C]))) (b, c # cs) = []" by simp
  with plus_cls_matches[of "none_of [CHR 0x22, CHR 0x5C]" c b cs]
  have 1: "c = CHR 0x22 \<or> c = CHR 0x5C" by (auto simp: none_of_def)
  from first_match_None[OF assms, of "Lit [CHR 0x22]" String_Double "Some Pop"]
  have "ends (Lit [CHR 0x22]) (b, c # cs) = []" by simp
  then have "c \<noteq> CHR 0x22" by (auto split: if_splits)
  with 1 show ?thesis by simp
qed

lemma comment_some_match:
  assumes "c = comment_multiline \<or> c = comment_multiline_double_dash"
  shows "first_match (tokens c) (b, x # xs) \<noteq> None"
proof
  assume n: "first_match (tokens c) (b, x # xs) = None"
  from assms have m: "(Plus (Cls (none_of ''*%'')), Comment_Multiline, None) \<in> set (tokens c)"
    "(Plus (Cls (one_of ''*/%'')), Comment_Multiline, None) \<in> set (tokens c)"
    by auto
  from first_match_None[OF n m(1)] plus_cls_matches[of "none_of ''*%''" x b xs]
  have 1: "\<not> none_of ''*%'' x" by auto
  from first_match_None[OF n m(2)] plus_cls_matches[of "one_of ''*/%''" x b xs]
  have 2: "\<not> one_of ''*/%'' x" by auto
  from 1 2 show False by (auto simp: none_of_def one_of_def)
qed

lemma comment_match:
  assumes "c = comment_multiline \<or> c = comment_multiline_double_dash"
    and "first_match (tokens c) (b, a) = Some (k, ns, (b', a'))"
  shows "k = Comment_Multiline \<and> (ns = None \<or> (ns = Some Pop \<and> a = ''*%'' @ a'))"
proof -
  from first_match_Some[OF assms(2)] obtain rex where
    r: "(rex, k, ns) \<in> set (tokens c)" "(b', a') \<in> set (ends rex (b, a))" by blast
  from r(1) assms(1) consider "k = Comment_Multiline" "ns = None"
    | "rex = Lit ''*%''" "k = Comment_Multiline" "ns = Some Pop"
    by auto
  then show ?thesis
  proof cases
    case 2
    with r(2) have "a = ''*%'' @ a'" by (auto simp: prefix_def split: if_splits)
    with 2 show ?thesis by simp
  qed simp_all
qed

lemma final_stack_total:
  "length a < n \<Longrightarrow> stack \<noteq> [] \<Longrightarrow> \<exists>fin. final_stack n stack (b, a) = Some fin"
proof (induction n arbitrary: stack b a)
  case 0
  then show ?case by simp
next
  case (Suc n)
  then obtain s ss where st: "stack = s # ss" by (cases stack) auto
  show ?case
  proof (cases "first_match (tokens s) (b, a)")
    case None
    show ?thesis
    proof (cases a)
      case Nil
      with None st show ?thesis by simp
    next
      case (Cons c cs)
      with Suc.prems have l: "length cs < n" by simp
      from Suc.IH[OF l, of "[root]" "c # b"] Suc.IH[OF l, of "s # ss" "c # b"]
      show ?thesis using None st Cons by auto
    qed
  next
    case (Some r)
    then obtain k ns b' a' where r: "first_match (tokens s) (b, a) = Some (k, ns, (b', a'))"
      by (cases r) auto
    from first_match_progress[OF r] obtain m where "m \<noteq> []" "a = m @ a'" by blast
    then have "length a' < length a" by (cases m) auto
    with Suc.prems have l: "length a' < n" by simp
    have "next_stack ns (s # ss) \<noteq> []" by (rule next_stack_nonempty) simp
    from Suc.IH[OF l this, of b'] show ?thesis using r st by auto
  qed
qed

lemma table_transitions:
  "(rex, k, ns) \<in> set (tokens s) \<Longrightarrow>
     (s = root \<and> (ns = None \<or> (\<exists>Y. Y \<noteq> root \<and> ns = Some (Push Y))))
     \<or> (s \<noteq> root \<and> (ns = None \<or> ns = Some Pop))"
  by (cases s) auto

lemma next_stack_shape:
  assumes "stack = [root] \<or> (\<exists>Y. Y \<noteq> root \<and> stack = [Y, root])"
    and "stack = s # ss"
    and "(rex, k, ns) \<in> set (tokens s)"
  shows "next_stack ns stack = [root] \<or> (\<exists>Y. Y \<noteq> root \<and> next_stack ns stack = [Y, root])"
  using assms table_transitions[OF assms(3)] by auto

lemma match_text:
  assumes "first_match rules (b, a) = Some (k, ns, (b', a'))"
  shows "a = take (length a - length a') a @ a'"
proof -
  from first_match_Some[OF assms] obtain rex where "(b', a') \<in> set (ends rex (b, a))" by blast
  from ends_split[OF this] obtain m where "a = m @ a'" by auto
  then show ?thesis by (metis add_diff_cancel_right' append_eq_conv_conj length_append)
qed

lemma root_opens_string_double:
  assumes "first_match (tokens root) (b, a) = Some (k, Some (Push string_double), (b', a'))"
  shows "k = String_Double \<and> take (length a - length a') a = [CHR 0x22]"
proof -
  from first_match_Some[OF assms] obtain rex where
    r: "(rex, k, Some (Push string_double)) \<in> set (tokens root)" "(b', a') \<in> set (ends rex (b, a))"
    by blast
  from r(1) have "rex = Lit [CHR 0x22]" "k = String_Double" by auto
  with r(2) have "a = CHR 0x22 # a'" by (auto simp: prefix_def split: if_splits)
  with \<open>k = String_Double\<close> show ?thesis by simp
qed

lemma string_double_inside:
  assumes "first_match (tokens string_double) (b, a) = Some (k, None, (b', a'))"
  shows "in_literal (length b, k, take (length a - length a') a)"
proof -
  from first_match_Some[OF assms] obtain rex where
    r: "(rex, k, None) \<in> set (tokens string_double)" "(b', a') \<in> set (ends rex (b, a))"
    by blast
  from ends_split[OF r(2)] obtain m where m: "a = m @ a'" by auto
  then have t: "take (length a - length a') a = m" by simp
  from r(1) consider
      "k = String_Escape" "minlen rex = 2"
    | "rex = Plus (Cls (none_of [CHR 0x22, CHR 0x5C]))" "k = String_Double"
    by auto
  then show ?thesis
  proof cases
    case 1
    from ends_minlen[OF r(2)] 1(2) m have "2 \<le> length m" by simp
    then have "m \<noteq> [CHR 0x22]" by auto
    with 1(1) t show ?thesis by (simp add: in_literal_def)
  next
    case 2
    from r(2)[unfolded 2(1) Plus_def] obtain st1 where
      s1: "st1 \<in> set (ends (Cls (none_of [CHR 0x22, CHR 0x5C])) (b, a))"
      and s2: "(b', a') \<in> set (ends (Star (Cls (none_of [CHR 0x22, CHR 0x5C]))) st1)"
      by (rule in_ends_SeqE)
    from s1 obtain c cs where c: "a = c # cs" "none_of [CHR 0x22, CHR 0x5C] c" "st1 = (c # b, cs)"
      by (cases a) (auto split: if_splits)
    from ends_split[OF s2] c(3) obtain m2 where "cs = m2 @ a'" by auto
    with c(1) m have "m = c # m2" by simp
    moreover from c(2) have "c \<noteq> CHR 0x22" by (simp add: none_of_def)
    ultimately have "m \<noteq> [CHR 0x22]" by simp
    with 2(2) t show ?thesis by (simp add: in_literal_def)
  qed
qed

lemma string_double_stuck:
  assumes "first_match (tokens string_double) (b, c # cs) = None"
  shows "c \<noteq> CHR 0x0A \<and> in_literal (length b, Error, [c])"
  using string_double_no_match[OF assms] by (simp add: in_literal_def)

lemma root_opens_comment_multiline:
  assumes "first_match (tokens root) (b, a) = Some (k, Some (Push comment_multiline), (b', a'))"
  shows "k = Comment_Multiline \<and> take (length a - length a') a = ''%*''"
proof -
  from first_match_Some[OF assms] obtain rex where
    r: "(rex, k, Some (Push comment_multiline)) \<in> set (tokens root)" "(b', a') \<in> set (ends rex (b, a))"
    by blast
  from r(1) have "rex = Lit ''%*''" "k = Comment_Multiline" by auto
  with r(2) have "a = ''%*'' @ a'" by (auto simp: prefix_def split: if_splits)
  with \<open>k = Comment_Multiline\<close> show ?thesis by simp
qed

lemma root_opens_comment_multiline_double_dash:
  assumes "first_match (tokens root) (b, a) = Some (k, Some (Push comment_multiline_double_dash), (b', a'))"
  shows "k = Comment_Multiline \<and> take (length a - length a') a = ''%**''"
proof -
  from first_match_Some[OF assms] obtain rex where
    r: "(rex, k, Some (Push comment_multiline_double_dash)) \<in> set (tokens root)" "(b', a') \<in> set (ends rex (b, a))"
    by blast
  from r(1) have "rex = Lit ''%**''" "k = Comment_Multiline" by auto
  with r(2) have "a = ''%**'' @ a'" by (auto simp: prefix_def split: if_splits)
  with \<open>k = Comment_Multiline\<close> show ?thesis by simp
qed

lemma comment_inside:
  assumes c: "c = comment_multiline \<or> c = comment_multiline_double_dash"
    and m: "first_match (tokens c) (b, a) = Some (k, None, (b', a'))"
  shows "in_comment (length b, k, take (length a - length a') a)"
proof -
  from comment_match[OF c m] have k: "k = Comment_Multiline" by simp
  have "take (length a - length a') a \<noteq> ''*%''"
  proof
    assume e: "take (length a - length a') a = ''*%''"
    from match_text[OF m] e have "a = ''*%'' @ a'" by simp
    then have "prefix ''*%'' a" by (metis prefixI)
    with c have "first_match (tokens c) (b, a) =
        Some (Comment_Multiline, Some Pop, (rev ''*%'' @ b, drop (length ''*%'') a))"
      by auto
    with m show False by simp
  qed
  with k show ?thesis by (simp add: in_comment_def)
qed

lemma comment_stuck:
  assumes c: "c = comment_multiline \<or> c = comment_multiline_double_dash"
    and m: "first_match (tokens c) (b, x # xs) = None"
  shows "x \<noteq> CHR 0x0A \<and> in_comment (length b, Error, [x])"
  using comment_some_match[OF c, of b x xs] m by simp

lemma unterminated_run:
  fixes X :: lexstate and isopen ins :: "nat \<times> token \<times> string \<Rightarrow> bool"
  assumes X: "X \<noteq> root"
    and A1: "\<And>b a k b' a'. first_match (tokens root) (b, a) = Some (k, Some (Push X), (b', a')) \<Longrightarrow>
               isopen (length b, k, take (length a - length a') a)"
    and A2: "\<And>b a k b' a'. first_match (tokens X) (b, a) = Some (k, None, (b', a')) \<Longrightarrow>
               ins (length b, k, take (length a - length a') a)"
    and A3: "\<And>b c cs. first_match (tokens X) (b, c # cs) = None \<Longrightarrow>
               c \<noteq> CHR 0x0A \<and> ins (length b, Error, [c])"
  shows "stack = [root] \<or> (\<exists>Y. Y \<noteq> root \<and> stack = [Y, root]) \<Longrightarrow>
     scan n stack (b, a) = Some toks \<Longrightarrow>
     final_stack n stack (b, a) = Some (X # rest) \<Longrightarrow>
     (stack = [X, root] \<and> list_all ins toks)
     \<or> (\<exists>toks1 t toks2. toks = toks1 @ t # toks2 \<and> isopen t \<and> list_all ins toks2)"
proof (induction n arbitrary: stack b a toks)
  case 0
  then show ?case by simp
next
  case (Suc n)
  from Suc.prems(1) obtain s ss where st: "stack = s # ss" by auto
  note shape = Suc.prems(1)
  show ?case
  proof (cases "first_match (tokens s) (b, a)")
    case None
    show ?thesis
    proof (cases a)
      case Nil
      with None st Suc.prems(2,3) have "toks = []" "stack = X # rest"
        by (simp_all del: tokens.simps)
      with shape X show ?thesis by auto
    next
      case (Cons c cs)
      show ?thesis
      proof (cases "c = CHR 0x0A")
        case True
        with None st Cons Suc.prems(2,3) obtain toks' where
          t: "scan n [root] (c # b, cs) = Some toks'" "toks = (length b, Whitespace, [c]) # toks'"
            "final_stack n [root] (c # b, cs) = Some (X # rest)"
          by (auto simp del: tokens.simps)
        from Suc.IH[OF _ t(1) t(3)] X obtain toks1 u toks2 where
          "toks' = toks1 @ u # toks2" "isopen u" "list_all ins toks2" by auto
        with t(2) have "toks = ((length b, Whitespace, [c]) # toks1) @ u # toks2 \<and> isopen u \<and> list_all ins toks2"
          by simp
        then show ?thesis by blast
      next
        case False
        with None st Cons Suc.prems(2,3) obtain toks' where
          t: "scan n stack (c # b, cs) = Some toks'" "toks = (length b, Error, [c]) # toks'"
            "final_stack n stack (c # b, cs) = Some (X # rest)"
          by (auto simp del: tokens.simps)
        from Suc.IH[OF shape t(1) t(3)] show ?thesis
        proof
          assume l: "stack = [X, root] \<and> list_all ins toks'"
          with st have "s = X" by simp
          with None Cons A3[of b c cs] have "ins (length b, Error, [c])" by simp
          with l t(2) show ?thesis by simp
        next
          assume "\<exists>toks1 t toks2. toks' = toks1 @ t # toks2 \<and> isopen t \<and> list_all ins toks2"
          then obtain toks1 u toks2 where
            "toks' = toks1 @ u # toks2" "isopen u" "list_all ins toks2" by auto
          with t(2) have "toks = ((length b, Error, [c]) # toks1) @ u # toks2 \<and> isopen u \<and> list_all ins toks2"
            by simp
          then show ?thesis by blast
        qed
      qed
    qed
  next
    case (Some r)
    then obtain k ns b' a' where r: "first_match (tokens s) (b, a) = Some (k, ns, (b', a'))"
      by (cases r) auto
    from first_match_Some[OF r] obtain rex where rule: "(rex, k, ns) \<in> set (tokens s)" by blast
    from r st Suc.prems(2,3) obtain toks' where
      t: "scan n (next_stack ns stack) (b', a') = Some toks'"
         "toks = (length b, k, take (length a - length a') a) # toks'"
         "final_stack n (next_stack ns stack) (b', a') = Some (X # rest)"
      by (auto simp del: tokens.simps)
    from next_stack_shape[OF shape st rule]
    have shape': "next_stack ns stack = [root] \<or> (\<exists>Y. Y \<noteq> root \<and> next_stack ns stack = [Y, root])" .
    from Suc.IH[OF shape' t(1) t(3)] show ?thesis
    proof
      assume l: "next_stack ns stack = [X, root] \<and> list_all ins toks'"
      from table_transitions[OF rule] shape st l X
      consider "s = X" "stack = [X, root]" "ns = None" | "s = root" "stack = [root]" "ns = Some (Push X)"
        by auto
      then show ?thesis
      proof cases
        case 1
        with r A2[of b a k b' a'] have "ins (length b, k, take (length a - length a') a)" by simp
        with l t(2) 1 show ?thesis by simp
      next
        case 2
        with r A1[of b a k b' a'] have "isopen (length b, k, take (length a - length a') a)" by simp
        with l t(2) have "toks = [] @ (length b, k, take (length a - length a') a) # toks'
            \<and> isopen (length b, k, take (length a - length a') a) \<and> list_all ins toks'" by simp
        then show ?thesis by blast
      qed
    next
      assume "\<exists>toks1 t toks2. toks' = toks1 @ t # toks2 \<and> isopen t \<and> list_all ins toks2"
      then obtain toks1 u toks2 where
        "toks' = toks1 @ u # toks2" "isopen u" "list_all ins toks2" by auto
      with t(2) have "toks = ((length b, k, take (length a - length a') a) # toks1) @ u # toks2
          \<and> isopen u \<and> list_all ins toks2"
        by simp
      then show ?thesis by blast
    qed
  qed
qed

lemma ends_inside_opened:
  fixes X :: lexstate and isopen ins :: "nat \<times> token \<times> string \<Rightarrow> bool"
  assumes X: "X \<noteq> root"
    and A1: "\<And>b a k b' a'. first_match (tokens root) (b, a) = Some (k, Some (Push X), (b', a')) \<Longrightarrow>
               isopen (length b, k, take (length a - length a') a)"
    and A2: "\<And>b a k b' a'. first_match (tokens X) (b, a) = Some (k, None, (b', a')) \<Longrightarrow>
               ins (length b, k, take (length a - length a') a)"
    and A3: "\<And>b c cs. first_match (tokens X) (b, c # cs) = None \<Longrightarrow>
               c \<noteq> CHR 0x0A \<and> ins (length b, Error, [c])"
    and toks: "get_tokens_unprocessed text = Some toks"
    and fin: "ends_inside X text"
  shows "\<exists>toks1 t toks2. toks = toks1 @ t # toks2 \<and> isopen t \<and> list_all ins toks2"
proof -
  from fin obtain rest where "final_statestack text = Some (X # rest)"
    by (auto simp: ends_inside_def split: option.splits list.splits)
  then have f: "final_stack (Suc (length text)) [root] ([], text) = Some (X # rest)"
    unfolding final_statestack_def .
  from toks have s: "scan (Suc (length text)) [root] ([], text) = Some toks"
    unfolding get_tokens_unprocessed_def .
  have "[root] = [root] \<or> (\<exists>Y. Y \<noteq> root \<and> [root] = [Y, root])" by simp
  from unterminated_run[of X isopen ins, OF X A1 A2 A3 this s f] X show ?thesis by auto
qed

lemma string_double_run:
  assumes t: "get_tokens_unprocessed text = Some toks"
    and e: "ends_inside string_double text"
  shows "\<exists>toks1 p toks2. toks = toks1 @ (p, String_Double, [CHR 0x22]) # toks2
           \<and> list_all in_literal toks2"
proof -
  have "\<exists>toks1 u toks2. toks = toks1 @ u # toks2
        \<and> snd u = (String_Double, [CHR 0x22]) \<and> list_all in_literal toks2"
  proof (rule ends_inside_opened[where X = string_double, OF _ _ _ _ t e])
    show "string_double \<noteq> root" by simp
  next
    fix b a k b' a'
    assume "first_match (tokens root) (b, a) = Some (k, Some (Push string_double), (b', a'))"
    from root_opens_string_double[OF this]
    show "snd (length b, k, take (length a - length a') a) = (String_Double, [CHR 0x22])" by simp
  next
    fix b a k b' a'
    assume "first_match (tokens string_double) (b, a) = Some (k, None, (b', a'))"
    then show "in_literal (length b, k, take (length a - length a') a)"
      by (rule string_double_inside)
  next
    fix b c cs
    assume "first_match (tokens string_double) (b, c # cs) = None"
    then show "c \<noteq> CHR 0x0A \<and> in_literal (length b, Error, [c])"
      by (rule string_double_stuck)
  qed
  then obtain toks1 u toks2 where
    u: "toks = toks1 @ u # toks2" "snd u = (String_Double, [CHR 0x22])" "list_all in_literal toks2"
    by blast
  from u(2) have "u = (fst u, String_Double, [CHR 0x22])" by (cases u) simp
  with u(1,3) show ?thesis by metis
qed

lemma comment_run:
  assumes c: "c = comment_multiline \<or> c = comment_multiline_double_dash"
    and t: "get_tokens_unprocessed text = Some toks"
    and e: "ends_inside c text"
  shows "\<exists>toks1 p toks2.
           toks = toks1 @ (p, Comment_Multiline, if c = comment_multiline then ''%*'' else ''%**'') # toks2
           \<and> list_all in_comment toks2"
proof -
  let ?v = "if c = comment_multiline then ''%*'' else ''%**''"
  have "\<exists>toks1 u toks2. toks = toks1 @ u # toks2
        \<and> snd u = (Comment_Multiline, ?v) \<and> list_all in_comment toks2"
  proof (rule ends_inside_opened[where X = c, OF _ _ _ _ t e])
    from c show "c \<noteq> root" by auto
  next
    fix b a k b' a'
    assume m: "first_match (tokens root) (b, a) = Some (k, Some (Push c), (b', a'))"
    from c show "snd (length b, k, take (length a - length a') a) = (Comment_Multiline, ?v)"
    proof
      assume "c = comment_multiline"
      with root_opens_comment_multiline[of b a k b' a'] m show ?thesis by simp
    next
      assume "c = comment_multiline_double_dash"
      with root_opens_comment_multiline_double_dash[of b a k b' a'] m show ?thesis by simp
    qed
  next
    fix b a k b' a'
    assume "first_match (tokens c) (b, a) = Some (k, None, (b', a'))"
    with c show "in_comment (length b, k, take (length a - length a') a)"
      by (rule comment_inside)
  next
    fix b x xs
    assume "first_match (tokens c) (b, x # xs) = None"
    with c show "x \<noteq> CHR 0x0A \<and> in_comment (length b, Error, [x])"
      by (rule comment_stuck)
  qed
  then obtain toks1 u toks2 where
    u: "toks = toks1 @ u # toks2" "snd u = (Comment_Multiline, ?v)" "list_all in_comment toks2"
    by blast
  from u(2) have "u = (fst u, Comment_Multiline, ?v)" by (cases u) simp
  with u(1,3) show ?thesis by metis
qed

text \<open>
  Claim C9, as the code has it where the module loads. The tokenizer returns for every
  input (the loop ends), and its tokens tile the input. If the input ends inside a
  double-quoted literal (the loop ends with \<open>string_double\<close> on top of the stack), the
  tokens end with the opening quote of that literal, a \<open>String_Double\<close> token, followed to
  the end of the input by tokens of the literal only: each is \<open>String_Double\<close>,
  \<open>String_Escape\<close>, or the \<open>Error\<close> token of a backslash that no escape rule accepts, and
  none is a closing quote. These are in general several tokens, not one. If the input ends
  inside a block comment, the tokens end with the opening marker of that comment followed
  to the end of the input by \<open>Comment_Multiline\<close> tokens, none of them the close marker.
\<close>

theorem unterminated_literal_and_comment_tokens:
  assumes "lexer_module lib = Inr ()"
  shows "\<exists>toks. BosqueLexer_get_tokens_unprocessed lib text = Inr (Some toks)
      \<and> concat (token_texts toks) = text \<and> contiguous 0 toks
      \<and> final_statestack text \<noteq> None
      \<and> (ends_inside string_double text \<longrightarrow>
            (\<exists>toks1 p toks2. toks = toks1 @ (p, String_Double, [CHR 0x22]) # toks2
                \<and> list_all in_literal toks2))
      \<and> (ends_inside comment_multiline text \<longrightarrow>
            (\<exists>toks1 p toks2. toks = toks1 @ (p, Comment_Multiline, ''%*'') # toks2
                \<and> list_all in_comment toks2))
      \<and> (ends_inside comment_multiline_double_dash text \<longrightarrow>
            (\<exists>toks1 p toks2. toks = toks1 @ (p, Comment_Multiline, ''%**'') # toks2
                \<and> list_all in_comment toks2))"
proof -
  have "\<exists>toks. scan (Suc (length text)) [root] ([], text) = Some toks"
    by (rule scan_total) simp_all
  then obtain toks where sc: "scan (Suc (length text)) [root] ([], text) = Some toks" ..
  then have t: "get_tokens_unprocessed text = Some toks"
    unfolding get_tokens_unprocessed_def .
  from assms t have r: "BosqueLexer_get_tokens_unprocessed lib text = Inr (Some toks)"
    by (simp add: BosqueLexer_get_tokens_unprocessed_def)
  from scan_tiles[OF sc]
  have tile: "concat (token_texts toks) = text" "contiguous 0 toks"
    by simp_all
  have "\<exists>fin. final_stack (Suc (length text)) [root] ([], text) = Some fin"
    by (rule final_stack_total) simp_all
  then have fin: "final_statestack text \<noteq> None"
    unfolding final_statestack_def by blast
  from string_double_run[OF t]
  have s: "ends_inside string_double text \<longrightarrow>
            (\<exists>toks1 p toks2. toks = toks1 @ (p, String_Double, [CHR 0x22]) # toks2
                \<and> list_all in_literal toks2)" by blast
  from comment_run[of comment_multiline, OF _ t]
  have c1: "ends_inside comment_multiline text \<longrightarrow>
            (\<exists>toks1 p toks2. toks = toks1 @ (p, Comment_Multiline, ''%*'') # toks2
                \<and> list_all in_comment toks2)" by simp
  from comment_run[of comment_multiline_double_dash, OF _ t]
  have c2: "ends_inside comment_multiline_double_dash text \<longrightarrow>
            (\<exists>toks1 p toks2. toks = toks1 @ (p, Comment_Multiline, ''%**'') # toks2
                \<and> list_all in_comment toks2)" by simp
  from r tile fin s c1 c2 show ?thesis by blast
qed


theorem unterminated_literal_and_comment_tokens_witness:
  "lexer_module pygments_with_Constant = Inr ()
   \<and> ends_inside string_double [CHR 0x22, CHR ''a'', CHR 0x22, CHR '' '', CHR 0x22, CHR ''b'']
   \<and> (\<exists>toks1 p toks2.
         [(0, String_Double, [CHR 0x22]), (1, String_Double, ''a''), (2, String_Double, [CHR 0x22]),
          (3, Text, '' ''), (4, String_Double, [CHR 0x22]), (5, String_Double, ''b'')]
           = toks1 @ (p, String_Double, [CHR 0x22]) # toks2
         \<and> list_all in_literal toks2)
   \<and> ends_inside comment_multiline ''x %* a * b''
   \<and> (\<exists>toks1 p toks2.
         [(0, Name_Variable, ''x''), (1, Text, '' ''), (2, Comment_Multiline, ''%*''),
          (4, Comment_Multiline, '' a ''), (7, Comment_Multiline, ''*''),
          (8, Comment_Multiline, '' b'')]
           = toks1 @ (p, Comment_Multiline, ''%*'') # toks2
         \<and> list_all in_comment toks2)
   \<and> ends_inside comment_multiline_double_dash ''%** a''
   \<and> (\<exists>toks1 p toks2.
         [(0, Comment_Multiline, ''%**''), (3, Comment_Multiline, '' a'')]
           = toks1 @ (p, Comment_Multiline, ''%**'') # toks2
         \<and> list_all in_comment toks2)"
proof -
  let ?t1 = "[CHR 0x22, CHR ''a'', CHR 0x22, CHR '' '', CHR 0x22, CHR ''b'']"
  have h: "lexer_module pygments_with_Constant = Inr ()" by (rule lexer_module_with_Constant)
  have e1: "ends_inside string_double ?t1" by code_simp
  have v1: "BosqueLexer_get_tokens_unprocessed pygments_with_Constant ?t1 =
      Inr (Some [(0, String_Double, [CHR 0x22]), (1, String_Double, ''a''), (2, String_Double, [CHR 0x22]),
          (3, Text, '' ''), (4, String_Double, [CHR 0x22]), (5, String_Double, ''b'')])"
    by code_simp
  have e2: "ends_inside comment_multiline ''x %* a * b''" by code_simp
  have v2: "BosqueLexer_get_tokens_unprocessed pygments_with_Constant ''x %* a * b'' =
      Inr (Some [(0, Name_Variable, ''x''), (1, Text, '' ''), (2, Comment_Multiline, ''%*''),
          (4, Comment_Multiline, '' a ''), (7, Comment_Multiline, ''*''),
          (8, Comment_Multiline, '' b'')])"
    by code_simp
  have e3: "ends_inside comment_multiline_double_dash ''%** a''" by code_simp
  have v3: "BosqueLexer_get_tokens_unprocessed pygments_with_Constant ''%** a'' =
      Inr (Some [(0, Comment_Multiline, ''%**''), (3, Comment_Multiline, '' a'')])"
    by code_simp
  from unterminated_literal_and_comment_tokens[OF h, of ?t1] e1 v1
  have r1: "\<exists>toks1 p toks2.
         [(0, String_Double, [CHR 0x22]), (1, String_Double, ''a''), (2, String_Double, [CHR 0x22]),
          (3, Text, '' ''), (4, String_Double, [CHR 0x22]), (5, String_Double, ''b'')]
           = toks1 @ (p, String_Double, [CHR 0x22]) # toks2
         \<and> list_all in_literal toks2"
    by (elim exE conjE) simp
  from unterminated_literal_and_comment_tokens[OF h, of "''x %* a * b''"] e2 v2
  have r2: "\<exists>toks1 p toks2.
         [(0, Name_Variable, ''x''), (1, Text, '' ''), (2, Comment_Multiline, ''%*''),
          (4, Comment_Multiline, '' a ''), (7, Comment_Multiline, ''*''),
          (8, Comment_Multiline, '' b'')]
           = toks1 @ (p, Comment_Multiline, ''%*'') # toks2
         \<and> list_all in_comment toks2"
    by (elim exE conjE) simp
  from unterminated_literal_and_comment_tokens[OF h, of "''%** a''"] e3 v3
  have r3: "\<exists>toks1 p toks2.
         [(0, Comment_Multiline, ''%**''), (3, Comment_Multiline, '' a'')]
           = toks1 @ (p, Comment_Multiline, ''%**'') # toks2
         \<and> list_all in_comment toks2"
    by (elim exE conjE) simp
  from h e1 r1 e2 r2 e3 r3 show ?thesis by blast
qed

text \<open>
  Claim C9 as stated fails at the unterminated literal of four characters, a double quote
  and \<^verbatim>\<open>abc\<close>. With the released Pygments the tokenizer raises \<^verbatim>\<open>ImportError\<close>. With a
  Pygments that defines \<^verbatim>\<open>Constant\<close> the input ends inside the literal and is scanned as
  two tokens, the quote and the text, not as one.
\<close>

theorem unterminated_string_raises_or_is_two_tokens:
  "BosqueLexer_get_tokens_unprocessed pygments_release [CHR 0x22, CHR ''a'', CHR ''b'', CHR ''c''] =
     Inl (cannot_import ''Constant'' ''pygments.token'')
   \<and> ends_inside string_double [CHR 0x22, CHR ''a'', CHR ''b'', CHR ''c'']
   \<and> BosqueLexer_get_tokens_unprocessed pygments_with_Constant [CHR 0x22, CHR ''a'', CHR ''b'', CHR ''c''] =
     Inr (Some [(0, String_Double, [CHR 0x22]), (1, String_Double, ''abc'')])"
proof (intro conjI)
  show "BosqueLexer_get_tokens_unprocessed pygments_release [CHR 0x22, CHR ''a'', CHR ''b'', CHR ''c''] =
     Inl (cannot_import ''Constant'' ''pygments.token'')"
    by (simp add: BosqueLexer_get_tokens_unprocessed_def lexer_module_release)
  show "ends_inside string_double [CHR 0x22, CHR ''a'', CHR ''b'', CHR ''c'']" by code_simp
  show "BosqueLexer_get_tokens_unprocessed pygments_with_Constant [CHR 0x22, CHR ''a'', CHR ''b'', CHR ''c''] =
     Inr (Some [(0, String_Double, [CHR 0x22]), (1, String_Double, ''abc'')])"
    by code_simp
qed

end
